theory Spec2Isabelle
  imports Complex_Main
begin

section \<open>The mortgage repayment simulator\<close>

text \<open>
  A shallow embedding of \<^verbatim>\<open>minimum_mortgage_repay_time_with_tracking\<close> of
  \<^verbatim>\<open>src/mortgage_app.py\<close>, in two models. In the first the monetary amounts and rates,
  Python floats (or ints) in the source, are real numbers and the arithmetic is exact; the
  literal \<^verbatim>\<open>1e-5\<close> is the real number \<open>1 / 100000\<close>. In the second every arithmetic
  operation on floats is followed by a rounding \<open>rd\<close>; with \<open>rd = fl64\<close>, rounding to
  binary64, it is the program as it computes, up to overflow and subnormal numbers, and
  without rounding it is the first model. Dates are the proleptic Gregorian dates of
  Python's \<^verbatim>\<open>datetime.date\<close>; a \<^verbatim>\<open>ValueError\<close> of the date constructor is the value
  \<open>Inl ValueError\<close>.
\<close>

subsection \<open>Calendar dates (Python's datetime.date)\<close>

datatype error = ValueError

record date =
  year :: int
  month :: int
  day :: int

definition MINYEAR :: int where
  "MINYEAR = 1"

definition MAXYEAR :: int where
  "MAXYEAR = 9999"

text \<open>The month tables of the date module; index 0 is a placeholder, months are 1 to 12.\<close>

definition DAYS_IN_MONTH :: "int list" where
  "DAYS_IN_MONTH = [-1, 31, 28, 31, 30, 31, 30, 31, 31, 30, 31, 30, 31]"

definition DAYS_BEFORE_MONTH :: "int list" where
  "DAYS_BEFORE_MONTH = [-1, 0, 31, 59, 90, 120, 151, 181, 212, 243, 273, 304, 334]"

definition is_leap :: "int \<Rightarrow> bool" where
  "is_leap y \<longleftrightarrow> y mod 4 = 0 \<and> (y mod 100 \<noteq> 0 \<or> y mod 400 = 0)"

definition days_before_year :: "int \<Rightarrow> int" where
  "days_before_year y = (y - 1) * 365 + (y - 1) div 4 - (y - 1) div 100 + (y - 1) div 400"

definition days_in_month :: "int \<Rightarrow> int \<Rightarrow> int" where
  "days_in_month y m = (if m = 2 \<and> is_leap y then 29 else DAYS_IN_MONTH ! nat m)"

definition days_before_month :: "int \<Rightarrow> int \<Rightarrow> int" where
  "days_before_month y m = DAYS_BEFORE_MONTH ! nat m + (if m > 2 \<and> is_leap y then 1 else 0)"

definition ymd2ord :: "int \<Rightarrow> int \<Rightarrow> int \<Rightarrow> int" where
  "ymd2ord y m d = days_before_year y + days_before_month y m + d"

definition toordinal :: "date \<Rightarrow> int" where
  "toordinal d = ymd2ord (year d) (month d) (day d)"

text \<open>The field check of the constructor: a date object exists only for valid fields.\<close>

definition check_date_fields :: "int \<Rightarrow> int \<Rightarrow> int \<Rightarrow> bool" where
  "check_date_fields y m d \<longleftrightarrow>
     MINYEAR \<le> y \<and> y \<le> MAXYEAR \<and> 1 \<le> m \<and> m \<le> 12 \<and> 1 \<le> d \<and> d \<le> days_in_month y m"

definition mk_date :: "int \<Rightarrow> int \<Rightarrow> int \<Rightarrow> error + date" where
  "mk_date y m d =
     (if check_date_fields y m d then Inr \<lparr>year = y, month = m, day = d\<rparr> else Inl ValueError)"

text \<open>\<^verbatim>\<open>d.replace(year=..., month=...)\<close>: an absent keyword keeps the field, and the
  result goes through the constructor again.\<close>

definition replace_date :: "date \<Rightarrow> int option \<Rightarrow> int option \<Rightarrow> error + date" where
  "replace_date d y m =
     mk_date (case y of None \<Rightarrow> year d | Some y' \<Rightarrow> y')
             (case m of None \<Rightarrow> month d | Some m' \<Rightarrow> m') (day d)"

text \<open>\<^verbatim>\<open>a < b\<close> on dates compares (year, month, day); \<^verbatim>\<open>(a - b).days\<close> is the
  difference of the ordinals.\<close>

definition date_less :: "date \<Rightarrow> date \<Rightarrow> bool" where
  "date_less a b \<longleftrightarrow>
     year a < year b \<or> (year a = year b \<and> (month a < month b \<or> (month a = month b \<and> day a < day b)))"

definition days_between :: "date \<Rightarrow> date \<Rightarrow> int" where
  "days_between a b = toordinal a - toordinal b"

definition valid_date :: "date \<Rightarrow> bool" where
  "valid_date d \<longleftrightarrow> check_date_fields (year d) (month d) (day d)"

subsection \<open>History records, the loop's variables and its constants\<close>

text \<open>One dictionary of \<^verbatim>\<open>history\<close>; the key \<^verbatim>\<open>"savings"\<close> is the field \<open>entry_savings\<close>
  (the name \<open>savings\<close> is the loop variable).\<close>

record entry =
  date :: date
  principal_remaining :: real
  entry_savings :: real
  interest_paid :: real
  total_paid :: real

text \<open>The local variables of the function. Those assigned only inside the loop
  (\<open>interest_this_month\<close>, \<open>actual_payment\<close>, \<open>leftover\<close>, \<open>early_repay_limit\<close>,
  \<open>actual_early_repay\<close>) are unbound before the first iteration; the initial state gives
  them 0, which no iteration reads. \<open>time_passed\<close> holds \<^verbatim>\<open>time_passed.days\<close>.\<close>

record state =
  current_date :: date
  principal :: real
  savings :: real
  month_count :: int
  total_interest_paid :: real
  history :: "entry list"
  yearly_principal_snapshot :: real
  early_repay_used :: real
  time_passed :: int
  interest_this_month :: real
  actual_payment :: real
  leftover :: real
  early_repay_limit :: real
  actual_early_repay :: real

text \<open>The values the loop reads and never assigns.\<close>

record env =
  mortgage_amount :: real
  monthly_payment :: real
  early_repay_percent :: real
  monthly_revenue :: real
  projection_years :: real
  monthly_mortgage_rate :: real
  monthly_savings_rate :: real
  start_no_limit_allowance_date :: date
  start_date :: date

definition snapshot :: "env \<Rightarrow> state \<Rightarrow> entry" where
  "snapshot e s =
     \<lparr>date = current_date s, principal_remaining = principal s, entry_savings = savings s,
      interest_paid = total_interest_paid s,
      total_paid = mortgage_amount e - principal s + total_interest_paid s\<rparr>"

subsection \<open>One month\<close>

text \<open>Lines 80 to 88: interest on both balances, then the mandatory payment.\<close>

definition accrue_and_pay :: "env \<Rightarrow> state \<Rightarrow> state" where
  "accrue_and_pay e s =
     (let interest = principal s * monthly_mortgage_rate e;
          total_interest = total_interest_paid s + interest;
          principal1 = principal s + interest;
          savings1 = savings s * (1 + monthly_savings_rate e);
          payment = min (monthly_payment e) principal1
      in s\<lparr>interest_this_month := interest, total_interest_paid := total_interest,
            savings := savings1, actual_payment := payment,
            principal := principal1 - payment, leftover := monthly_revenue e - payment\<rparr>)"

text \<open>Lines 90 to 97: the annual reset on a 1 January, then the limit of this month.\<close>

definition allowance :: "env \<Rightarrow> state \<Rightarrow> state" where
  "allowance e s =
     (let s1 = (if month (current_date s) = 1 \<and> day (current_date s) = 1
                then s\<lparr>yearly_principal_snapshot := principal s, early_repay_used := 0\<rparr>
                else s)
      in if date_less (current_date s1) (start_no_limit_allowance_date e)
         then s1\<lparr>early_repay_limit :=
                   yearly_principal_snapshot s1 * early_repay_percent e - early_repay_used s1\<rparr>
         else s1\<lparr>early_repay_limit := principal s1\<rparr>)"

text \<open>Lines 99 to 110: the early repayment, from the leftover first and then from savings.\<close>

definition early_repay :: "state \<Rightarrow> state" where
  "early_repay s =
     (let early = min (min (leftover s + savings s) (early_repay_limit s)) (principal s);
          s1 = (if early > leftover s
                then (let from_savings = early - leftover s
                      in s\<lparr>savings := max 0 (savings s - from_savings), leftover := 0\<rparr>)
                else s\<lparr>leftover := leftover s - early\<rparr>)
      in s1\<lparr>actual_early_repay := early, principal := principal s1 - early,
             early_repay_used := early_repay_used s1 + early,
             savings := savings s1 + leftover s1\<rparr>)"

text \<open>Lines 113 to 116: the same day one month later; \<^verbatim>\<open>replace\<close> raises when that
  day does not exist or the year leaves the range of dates.\<close>

definition next_month :: "date \<Rightarrow> error + date" where
  "next_month d =
     (if month d = 12 then replace_date d (Some (year d + 1)) (Some 1)
      else replace_date d None (Some (month d + 1)))"

text \<open>Lines 112 to 125: the month counter, the date one month later, the new history
  record and the elapsed days.\<close>

definition advance :: "env \<Rightarrow> state \<Rightarrow> error + state" where
  "advance e s =
     (case next_month (current_date s) of
        Inl err \<Rightarrow> Inl err
      | Inr d \<Rightarrow>
          (let s1 = s\<lparr>month_count := month_count s + 1, current_date := d\<rparr>
           in Inr (s1\<lparr>history := history s1 @ [snapshot e s1],
                       time_passed := days_between d (start_date e)\<rparr>)))"

definition loop_body :: "env \<Rightarrow> state \<Rightarrow> error + state" where
  "loop_body e s = advance e (early_repay (allowance e (accrue_and_pay e s)))"

definition loop_cond :: "env \<Rightarrow> state \<Rightarrow> bool" where
  "loop_cond e s \<longleftrightarrow>
     principal s > 1 / 100000 \<or> real_of_int (time_passed s div 365) < projection_years e"

subsection \<open>The loop and the function\<close>

text \<open>The \<^verbatim>\<open>while\<close> loop of lines 79 to 127, with its \<^verbatim>\<open>break\<close> after 60 years of
  365 days. An exception of the body leaves the loop with that exception. The loop
  terminates for every environment and state (proved below, once the calendar facts are
  there): each month moves the date forward and no month starts after the \<^verbatim>\<open>break\<close>.\<close>

function simulation_loop :: "env \<Rightarrow> state \<Rightarrow> error + state" where
  "simulation_loop e s =
     (if loop_cond e s
      then (case loop_body e s of
              Inl err \<Rightarrow> Inl err
            | Inr s' \<Rightarrow> if time_passed s' > 365 * 60 then Inr s' else simulation_loop e s')
      else Inr s)"
  by pat_completeness auto

text \<open>Lines 54 to 78: the values fixed before the loop, and the state at its first test,
  with the record of the start in the history.\<close>

definition loop_env ::
  "real \<Rightarrow> real \<Rightarrow> real \<Rightarrow> real \<Rightarrow> real \<Rightarrow> real \<Rightarrow> real \<Rightarrow> date \<Rightarrow> date \<Rightarrow> env" where
  "loop_env amount payment percent mortgage_interest_rate revenue savings_interest_rate
       projection no_limit start =
     \<lparr>mortgage_amount = amount, monthly_payment = payment, early_repay_percent = percent,
      monthly_revenue = revenue, projection_years = projection,
      monthly_mortgage_rate = mortgage_interest_rate / 12,
      monthly_savings_rate = savings_interest_rate / 12,
      start_no_limit_allowance_date = no_limit, start_date = start\<rparr>"

definition initial_state :: "env \<Rightarrow> date \<Rightarrow> real \<Rightarrow> state" where
  "initial_state e d start_saving =
     (let s0 = \<lparr>current_date = d, principal = mortgage_amount e, savings = start_saving,
                month_count = 0, total_interest_paid = 0, history = [],
                yearly_principal_snapshot = mortgage_amount e, early_repay_used = 0,
                time_passed = days_between d (start_date e),
                interest_this_month = 0, actual_payment = 0, leftover = 0,
                early_repay_limit = 0, actual_early_repay = 0\<rparr>
      in s0\<lparr>history := history s0 @ [snapshot e s0]\<rparr>)"

definition minimum_mortgage_repay_time_with_tracking ::
  "date \<Rightarrow> real \<Rightarrow> real \<Rightarrow> real \<Rightarrow> real \<Rightarrow> int \<Rightarrow> real \<Rightarrow> real \<Rightarrow> real \<Rightarrow> real
   \<Rightarrow> error + (int \<times> entry list \<times> real)" where
  "minimum_mortgage_repay_time_with_tracking d start_saving amount payment percent
       n_years_with_allowance mortgage_interest_rate revenue savings_interest_rate projection =
     (case mk_date (year d + n_years_with_allowance) (month d) (day d) of
        Inl err \<Rightarrow> Inl err
      | Inr no_limit \<Rightarrow>
          (case mk_date (year d) (month d) (day d) of
             Inl err \<Rightarrow> Inl err
           | Inr start \<Rightarrow>
               (let e = loop_env amount payment percent mortgage_interest_rate revenue
                          savings_interest_rate projection no_limit start
                in (case simulation_loop e (initial_state e d start_saving) of
                      Inl err \<Rightarrow> Inl err
                    | Inr s \<Rightarrow> Inr (month_count s, history s, total_interest_paid s)))))"

subsection \<open>Binary floating point\<close>

text \<open>
  The source computes in Python floats. Rounding to the nearest multiple of the unit in the
  last place, ties to the even multiple, with 53 significant bits; the exponent range is
  not bounded here, so overflow and subnormal numbers are not modelled.
\<close>

definition round_even :: "real \<Rightarrow> int" where
  "round_even q =
     (let n = \<lfloor>q\<rfloor>
      in if q - of_int n < 1 / 2 then n
         else if 1 / 2 < q - of_int n then n + 1
         else if even n then n else n + 1)"

definition ulp_of :: "real \<Rightarrow> real" where
  "ulp_of x = 2 powr of_int (\<lfloor>log 2 \<bar>x\<bar>\<rfloor> - 52)"

definition fl64 :: "real \<Rightarrow> real" where
  "fl64 x = (if x = 0 then 0 else sgn x * (of_int (round_even (\<bar>x\<bar> / ulp_of x)) * ulp_of x))"

text \<open>What the proofs use of a rounding: it keeps 0, it is monotone, and it keeps its own
  results. \<open>fl64\<close> is one (\<open>rounding_fl64\<close> below), and so is no rounding at all.\<close>

definition rounding :: "(real \<Rightarrow> real) \<Rightarrow> bool" where
  "rounding rd \<longleftrightarrow> rd 0 = 0 \<and> (\<forall>x y. x \<le> y \<longrightarrow> rd x \<le> rd y) \<and> (\<forall>x. rd (rd x) = rd x)"

subsection \<open>The month, the loop and the function with rounding\<close>

text \<open>
  The same lines of the source, with the rounding \<open>rd\<close> after every arithmetic operation
  on floats, in the order Python evaluates them; \<^verbatim>\<open>min\<close>, \<^verbatim>\<open>max\<close> and the comparisons do
  not round, and the literal \<^verbatim>\<open>1e-5\<close> is \<open>rd (1 / 100000)\<close>. The inputs are meant to be
  results of \<open>rd\<close>. With \<open>rd = fl64\<close> this is the program on doubles; with no rounding it
  is the exact model above (\<open>exact_function\<close> below).
\<close>

definition snapshot_fl :: "(real \<Rightarrow> real) \<Rightarrow> env \<Rightarrow> state \<Rightarrow> entry" where
  "snapshot_fl rd e s =
     \<lparr>date = current_date s, principal_remaining = principal s, entry_savings = savings s,
      interest_paid = total_interest_paid s,
      total_paid = rd (rd (mortgage_amount e - principal s) + total_interest_paid s)\<rparr>"

definition accrue_and_pay_fl :: "(real \<Rightarrow> real) \<Rightarrow> env \<Rightarrow> state \<Rightarrow> state" where
  "accrue_and_pay_fl rd e s =
     (let interest = rd (principal s * monthly_mortgage_rate e);
          total_interest = rd (total_interest_paid s + interest);
          principal1 = rd (principal s + interest);
          savings1 = rd (savings s * rd (1 + monthly_savings_rate e));
          payment = min (monthly_payment e) principal1
      in s\<lparr>interest_this_month := interest, total_interest_paid := total_interest,
            savings := savings1, actual_payment := payment,
            principal := rd (principal1 - payment),
            leftover := rd (monthly_revenue e - payment)\<rparr>)"

definition allowance_fl :: "(real \<Rightarrow> real) \<Rightarrow> env \<Rightarrow> state \<Rightarrow> state" where
  "allowance_fl rd e s =
     (let s1 = (if month (current_date s) = 1 \<and> day (current_date s) = 1
                then s\<lparr>yearly_principal_snapshot := principal s, early_repay_used := 0\<rparr>
                else s)
      in if date_less (current_date s1) (start_no_limit_allowance_date e)
         then s1\<lparr>early_repay_limit :=
                   rd (rd (yearly_principal_snapshot s1 * early_repay_percent e)
                       - early_repay_used s1)\<rparr>
         else s1\<lparr>early_repay_limit := principal s1\<rparr>)"

definition early_repay_fl :: "(real \<Rightarrow> real) \<Rightarrow> state \<Rightarrow> state" where
  "early_repay_fl rd s =
     (let early = min (min (rd (leftover s + savings s)) (early_repay_limit s)) (principal s);
          s1 = (if early > leftover s
                then (let from_savings = rd (early - leftover s)
                      in s\<lparr>savings := max 0 (rd (savings s - from_savings)), leftover := 0\<rparr>)
                else s\<lparr>leftover := rd (leftover s - early)\<rparr>)
      in s1\<lparr>actual_early_repay := early, principal := rd (principal s1 - early),
             early_repay_used := rd (early_repay_used s1 + early),
             savings := rd (savings s1 + leftover s1)\<rparr>)"

definition advance_fl :: "(real \<Rightarrow> real) \<Rightarrow> env \<Rightarrow> state \<Rightarrow> error + state" where
  "advance_fl rd e s =
     (case next_month (current_date s) of
        Inl err \<Rightarrow> Inl err
      | Inr d \<Rightarrow>
          (let s1 = s\<lparr>month_count := month_count s + 1, current_date := d\<rparr>
           in Inr (s1\<lparr>history := history s1 @ [snapshot_fl rd e s1],
                       time_passed := days_between d (start_date e)\<rparr>)))"

definition loop_body_fl :: "(real \<Rightarrow> real) \<Rightarrow> env \<Rightarrow> state \<Rightarrow> error + state" where
  "loop_body_fl rd e s =
     advance_fl rd e (early_repay_fl rd (allowance_fl rd e (accrue_and_pay_fl rd e s)))"

definition loop_cond_fl :: "(real \<Rightarrow> real) \<Rightarrow> env \<Rightarrow> state \<Rightarrow> bool" where
  "loop_cond_fl rd e s \<longleftrightarrow>
     principal s > rd (1 / 100000) \<or> real_of_int (time_passed s div 365) < projection_years e"

function simulation_loop_fl :: "(real \<Rightarrow> real) \<Rightarrow> env \<Rightarrow> state \<Rightarrow> error + state" where
  "simulation_loop_fl rd e s =
     (if loop_cond_fl rd e s
      then (case loop_body_fl rd e s of
              Inl err \<Rightarrow> Inl err
            | Inr s' \<Rightarrow> if time_passed s' > 365 * 60 then Inr s' else simulation_loop_fl rd e s')
      else Inr s)"
  by pat_completeness auto

definition loop_env_fl ::
  "(real \<Rightarrow> real) \<Rightarrow> real \<Rightarrow> real \<Rightarrow> real \<Rightarrow> real \<Rightarrow> real \<Rightarrow> real \<Rightarrow> real \<Rightarrow> date \<Rightarrow> date \<Rightarrow> env" where
  "loop_env_fl rd amount payment percent mortgage_interest_rate revenue savings_interest_rate
       projection no_limit start =
     \<lparr>mortgage_amount = amount, monthly_payment = payment, early_repay_percent = percent,
      monthly_revenue = revenue, projection_years = projection,
      monthly_mortgage_rate = rd (mortgage_interest_rate / 12),
      monthly_savings_rate = rd (savings_interest_rate / 12),
      start_no_limit_allowance_date = no_limit, start_date = start\<rparr>"

definition initial_state_fl :: "(real \<Rightarrow> real) \<Rightarrow> env \<Rightarrow> date \<Rightarrow> real \<Rightarrow> state" where
  "initial_state_fl rd e d start_saving =
     (let s0 = \<lparr>current_date = d, principal = mortgage_amount e, savings = start_saving,
                month_count = 0, total_interest_paid = 0, history = [],
                yearly_principal_snapshot = mortgage_amount e, early_repay_used = 0,
                time_passed = days_between d (start_date e),
                interest_this_month = 0, actual_payment = 0, leftover = 0,
                early_repay_limit = 0, actual_early_repay = 0\<rparr>
      in s0\<lparr>history := history s0 @ [snapshot_fl rd e s0]\<rparr>)"

definition minimum_mortgage_repay_time_with_tracking_fl ::
  "(real \<Rightarrow> real) \<Rightarrow> date \<Rightarrow> real \<Rightarrow> real \<Rightarrow> real \<Rightarrow> real \<Rightarrow> int \<Rightarrow> real \<Rightarrow> real \<Rightarrow> real \<Rightarrow> real
   \<Rightarrow> error + (int \<times> entry list \<times> real)" where
  "minimum_mortgage_repay_time_with_tracking_fl rd d start_saving amount payment percent
       n_years_with_allowance mortgage_interest_rate revenue savings_interest_rate projection =
     (case mk_date (year d + n_years_with_allowance) (month d) (day d) of
        Inl err \<Rightarrow> Inl err
      | Inr no_limit \<Rightarrow>
          (case mk_date (year d) (month d) (day d) of
             Inl err \<Rightarrow> Inl err
           | Inr start \<Rightarrow>
               (let e = loop_env_fl rd amount payment percent mortgage_interest_rate revenue
                          savings_interest_rate projection no_limit start
                in (case simulation_loop_fl rd e (initial_state_fl rd e d start_saving) of
                      Inl err \<Rightarrow> Inl err
                    | Inr s \<Rightarrow> Inr (month_count s, history s, total_interest_paid s)))))"

subsection \<open>Predicates of the statements\<close>

definition conserved :: "real \<Rightarrow> entry \<Rightarrow> bool" where
  "conserved amount r \<longleftrightarrow>
     total_paid r = amount - principal_remaining r + interest_paid r"

definition entry_nonneg :: "entry \<Rightarrow> bool" where
  "entry_nonneg r \<longleftrightarrow> 0 \<le> principal_remaining r \<and> 0 \<le> entry_savings r"

definition nondecreasing :: "entry list \<Rightarrow> bool" where
  "nondecreasing h \<longleftrightarrow>
     (\<forall>i. Suc i < length h \<longrightarrow>
        interest_paid (h ! i) \<le> interest_paid (h ! Suc i) \<and>
        total_paid (h ! i) \<le> total_paid (h ! Suc i))"

definition env_ok :: "env \<Rightarrow> bool" where
  "env_ok e \<longleftrightarrow>
     0 \<le> monthly_payment e \<and> 0 \<le> early_repay_percent e \<and> 0 \<le> monthly_revenue e \<and>
     0 \<le> monthly_mortgage_rate e \<and> 0 \<le> monthly_savings_rate e"

definition capped :: "env \<Rightarrow> state \<Rightarrow> bool" where
  "capped e s \<longleftrightarrow> date_less (current_date s) (start_no_limit_allowance_date e)"

definition balances_ok :: "env \<Rightarrow> state \<Rightarrow> bool" where
  "balances_ok e s \<longleftrightarrow>
     0 \<le> principal s \<and> 0 \<le> savings s \<and>
     (capped e s \<longrightarrow>
        early_repay_used s \<le> yearly_principal_snapshot s * early_repay_percent e)"

text \<open>\<open>loop_head e s0 s\<close>: started in \<open>s0\<close>, the loop tests its condition in state \<open>s\<close>.\<close>

inductive loop_head :: "env \<Rightarrow> state \<Rightarrow> state \<Rightarrow> bool" for e :: env and s0 :: state where
  first: "loop_head e s0 s0"
| again: "loop_head e s0 s \<Longrightarrow> loop_cond e s \<Longrightarrow> loop_body e s = Inr s' \<Longrightarrow>
          \<not> 365 * 60 < time_passed s' \<Longrightarrow> loop_head e s0 s'"

text \<open>The date of the loop keeps the day of the start and is \<open>month_count\<close> months after it.\<close>

definition months_inv :: "env \<Rightarrow> state \<Rightarrow> bool" where
  "months_inv e s \<longleftrightarrow>
     valid_date (start_date e) \<and>
     1 \<le> month (current_date s) \<and> month (current_date s) \<le> 12 \<and>
     day (current_date s) = day (start_date e) \<and> 0 \<le> month_count s \<and>
     12 * year (current_date s) + month (current_date s) =
       12 * year (start_date e) + month (start_date e) + month_count s"

text \<open>The state after \<open>k\<close> months of the scenario: \<open>1000 * k\<close> repaid, nothing else moved.\<close>

definition scenario1_inv :: "env \<Rightarrow> real \<Rightarrow> nat \<Rightarrow> state \<Rightarrow> bool" where
  "scenario1_inv e start_saving k s \<longleftrightarrow>
     months_inv e s \<and> month_count s = int k \<and>
     time_passed s = toordinal (current_date s) - toordinal (start_date e) \<and>
     principal s = 120000 - 1000 * real k \<and> savings s = start_saving \<and>
     early_repay_used s = 0 \<and> total_interest_paid s = 0 \<and>
     map principal_remaining (history s) = map (\<lambda>i. 120000 - 1000 * real i) [0..<Suc k]"

definition interest_nondecreasing :: "entry list \<Rightarrow> bool" where
  "interest_nondecreasing h \<longleftrightarrow>
     (\<forall>i. Suc i < length h \<longrightarrow> interest_paid (h ! i) \<le> interest_paid (h ! Suc i))"

text \<open>The signs that every month keeps under rounding.\<close>

definition fl_ok :: "(real \<Rightarrow> real) \<Rightarrow> state \<Rightarrow> bool" where
  "fl_ok rd s \<longleftrightarrow>
     0 \<le> principal s \<and> 0 \<le> savings s \<and> rd (total_interest_paid s) = total_interest_paid s"

definition rates_ok :: "env \<Rightarrow> bool" where
  "rates_ok e \<longleftrightarrow> 0 \<le> monthly_mortgage_rate e \<and> 0 \<le> monthly_savings_rate e"

text \<open>\<open>loop_head_fl rd e s0 s\<close>: the same for the loop with rounding.\<close>

inductive loop_head_fl :: "(real \<Rightarrow> real) \<Rightarrow> env \<Rightarrow> state \<Rightarrow> state \<Rightarrow> bool"
  for rd :: "real \<Rightarrow> real" and e :: env and s0 :: state where
  first_fl: "loop_head_fl rd e s0 s0"
| again_fl: "loop_head_fl rd e s0 s \<Longrightarrow> loop_cond_fl rd e s \<Longrightarrow> loop_body_fl rd e s = Inr s' \<Longrightarrow>
          \<not> 365 * 60 < time_passed s' \<Longrightarrow> loop_head_fl rd e s0 s'"

subsection \<open>Inputs to evaluate\<close>

text \<open>A month that repays everything: 1 August 2025, 10000 owed, payment 500, revenue
  10500, savings 5000, no allowance window, no interest.\<close>

definition payoff_env :: env where
  "payoff_env = loop_env 10000 500 1 0 10500 0 0
     \<lparr>year = 2025, month = 8, day = 1\<rparr> \<lparr>year = 2025, month = 8, day = 1\<rparr>"

definition payoff_state :: state where
  "payoff_state = initial_state payoff_env \<lparr>year = 2025, month = 8, day = 1\<rparr> 5000"

text \<open>A month to evaluate: 1 January 2026, 1000 owed, payment 100, revenue 1000, no
  savings, cap fraction one tenth for four years, no interest.\<close>

definition january_env :: env where
  "january_env = loop_env 1000 100 (1 / 10) 0 1000 0 0
     \<lparr>year = 2030, month = 1, day = 1\<rparr> \<lparr>year = 2026, month = 1, day = 1\<rparr>"

definition january_state :: state where
  "january_state = initial_state january_env \<lparr>year = 2026, month = 1, day = 1\<rparr> 0"

text \<open>A month in which only interest moves: 1 August 2025, 100000 owed, no payment, no
  revenue, no savings, no allowance window; the rate is the double nearest to 0.05.\<close>

definition drift_env :: env where
  "drift_env = loop_env_fl fl64 100000 0 0 (3602879701896397 / 72057594037927936) 0 0 0
     \<lparr>year = 2025, month = 8, day = 1\<rparr> \<lparr>year = 2025, month = 8, day = 1\<rparr>"

definition drift_state :: state where
  "drift_state = initial_state_fl fl64 drift_env \<lparr>year = 2025, month = 8, day = 1\<rparr> 0"





section \<open>Facts about the model\<close>

subsection \<open>The calendar, and the termination of the loop\<close>

lemma month_cases:
  "1 \<le> m \<Longrightarrow> m \<le> 12 \<Longrightarrow>
   m = 1 \<or> m = 2 \<or> m = 3 \<or> m = 4 \<or> m = 5 \<or> m = 6 \<or> m = 7 \<or> m = 8 \<or> m = 9 \<or> m = 10 \<or> m = 11 \<or> m = (12::int)"
  by arith

lemma days_before_month_nonneg:
  "1 \<le> m \<Longrightarrow> m \<le> 12 \<Longrightarrow> 0 \<le> days_before_month y m"
  using month_cases [of m] by (auto simp: days_before_month_def DAYS_BEFORE_MONTH_def)

lemma days_before_month_le:
  "1 \<le> m \<Longrightarrow> m \<le> 12 \<Longrightarrow> days_before_month y m \<le> 335"
  using month_cases [of m] by (auto simp: days_before_month_def DAYS_BEFORE_MONTH_def)

lemma days_before_month_Suc:
  "1 \<le> m \<Longrightarrow> m \<le> 11 \<Longrightarrow> days_before_month y m < days_before_month y (m + 1)"
  using month_cases [of m] by (auto simp: days_before_month_def DAYS_BEFORE_MONTH_def)

text \<open>Leap days counted through nested quotients: \<open>a div 100 = a div 4 div 25\<close> and
  \<open>a div 400 = a div 4 div 25 div 4\<close>, each quotient bounded linearly by the one before.\<close>

lemma days_before_year_repr:
  obtains q c f where "days_before_year y = 365 * y - 365 + q - c + f"
    and "4 * q \<le> y - 1" and "y - 1 < 4 * q + 4"
    and "25 * c \<le> q" and "q < 25 * c + 25"
    and "4 * f \<le> c" and "c < 4 * f + 4"
proof
  let ?q = "(y - 1) div 4"
  let ?c = "?q div 25"
  let ?f = "?c div 4"
  have "(y - 1) div 100 = ?c" "(y - 1) div 400 = ?f"
    by (simp_all add: zdiv_zmult2_eq)
  then show "days_before_year y = 365 * y - 365 + ?q - ?c + ?f"
    by (simp add: days_before_year_def)
  show "4 * ?q \<le> y - 1" "y - 1 < 4 * ?q + 4" "25 * ?c \<le> ?q" "?q < 25 * ?c + 25"
    "4 * ?f \<le> ?c" "?c < 4 * ?f + 4"
    by linarith+
qed

lemma days_before_year_nonneg: "1 \<le> y \<Longrightarrow> 0 \<le> days_before_year y"
proof -
  assume y: "1 \<le> y"
  obtain q c f where r: "days_before_year y = 365 * y - 365 + q - c + f"
    "4 * q \<le> y - 1" "y - 1 < 4 * q + 4" "25 * c \<le> q" "q < 25 * c + 25" "4 * f \<le> c" "c < 4 * f + 4"
    by (rule days_before_year_repr)
  from y r have "0 \<le> q" by linarith
  with r have "0 \<le> c" by linarith
  with r have "0 \<le> f" "c \<le> q" by linarith+
  with r y show ?thesis by linarith
qed

lemma days_before_year_add:
  assumes "0 \<le> j" "j \<le> 99"
  shows "days_before_year y + 365 * j + j div 4 - 1 \<le> days_before_year (y + j)"
    and "days_before_year (y + j) \<le> days_before_year y + 365 * j + j div 4 + 2"
proof -
  obtain q c f where r: "days_before_year y = 365 * y - 365 + q - c + f"
    "4 * q \<le> y - 1" "y - 1 < 4 * q + 4" "25 * c \<le> q" "q < 25 * c + 25" "4 * f \<le> c" "c < 4 * f + 4"
    by (rule days_before_year_repr)
  obtain q' c' f' where r': "days_before_year (y + j) = 365 * (y + j) - 365 + q' - c' + f'"
    "4 * q' \<le> y + j - 1" "y + j - 1 < 4 * q' + 4" "25 * c' \<le> q'" "q' < 25 * c' + 25"
    "4 * f' \<le> c'" "c' < 4 * f' + 4"
    by (rule days_before_year_repr)
  have q: "q + j div 4 \<le> q'" "q' \<le> q + j div 4 + 1" using r(2,3) r'(2,3) by linarith+
  with assms have q2: "q \<le> q'" "q' \<le> q + 25" by linarith+
  have c: "c \<le> c'" "c' \<le> c + 1" using q2 r(4,5) r'(4,5) by linarith+
  have f: "f \<le> f'" "f' \<le> f + 1" using c r(6,7) r'(6,7) by linarith+
  have cf: "f' - f \<le> c' - c" using c f r(6,7) r'(6,7) by linarith
  show "days_before_year y + 365 * j + j div 4 - 1 \<le> days_before_year (y + j)"
    using r(1) r'(1) q c f by (simp add: algebra_simps)
  show "days_before_year (y + j) \<le> days_before_year y + 365 * j + j div 4 + 2"
    using r(1) r'(1) q c f cf by (simp add: algebra_simps)
qed

lemma days_before_year_Suc: "days_before_year y + 365 \<le> days_before_year (y + 1)"
proof -
  obtain q c f where r: "days_before_year y = 365 * y - 365 + q - c + f"
    "4 * q \<le> y - 1" "y - 1 < 4 * q + 4" "25 * c \<le> q" "q < 25 * c + 25" "4 * f \<le> c" "c < 4 * f + 4"
    by (rule days_before_year_repr)
  obtain q' c' f' where r': "days_before_year (y + 1) = 365 * (y + 1) - 365 + q' - c' + f'"
    "4 * q' \<le> y + 1 - 1" "y + 1 - 1 < 4 * q' + 4" "25 * c' \<le> q'" "q' < 25 * c' + 25"
    "4 * f' \<le> c'" "c' < 4 * f' + 4"
    by (rule days_before_year_repr)
  have q: "q \<le> q'" "q' \<le> q + 1" using r(2,3) r'(2,3) by linarith+
  have c: "c \<le> c'" "c' \<le> c + 1" using q r(4,5) r'(4,5) by linarith+
  have f: "f \<le> f'" using c r(6,7) r'(6,7) by linarith
  have "c' - c \<le> q' - q" using q c r(4,5) r'(4,5) by linarith
  then show ?thesis using r(1) r'(1) f by (simp add: algebra_simps)
qed

lemma toordinal_pos: "valid_date d \<Longrightarrow> 0 < toordinal d"
  using days_before_year_nonneg [of "year d"] days_before_month_nonneg [of "month d" "year d"]
  by (simp add: valid_date_def check_date_fields_def toordinal_def ymd2ord_def MINYEAR_def)

lemma mk_date_Inr:
  "mk_date y m d = Inr r \<Longrightarrow> valid_date r \<and> year r = y \<and> month r = m \<and> day r = d"
  by (auto simp: mk_date_def valid_date_def split: if_splits)

lemma next_month_Inr:
  assumes "next_month d = Inr d'"
  shows "valid_date d'" and "day d' = day d"
    and "month d = 12 \<Longrightarrow> year d' = year d + 1 \<and> month d' = 1"
    and "month d \<noteq> 12 \<Longrightarrow> year d' = year d \<and> month d' = month d + 1"
  using assms by (auto simp: next_month_def replace_date_def split: if_splits dest: mk_date_Inr)

lemma next_month_toordinal:
  assumes "valid_date d" and "next_month d = Inr d'"
  shows "toordinal d < toordinal d'"
proof (cases "month d = 12")
  case True
  with next_month_Inr [OF assms(2)]
  have d': "year d' = year d + 1" "month d' = 1" "day d' = day d"
    by simp_all
  have "days_before_month (year d) 12 \<le> 335"
    by (rule days_before_month_le) simp_all
  moreover have "days_before_month (year d + 1) 1 = 0"
    by (simp add: days_before_month_def DAYS_BEFORE_MONTH_def)
  ultimately show ?thesis
    using days_before_year_Suc [of "year d"] True d'
    by (simp add: toordinal_def ymd2ord_def)
next
  case False
  with next_month_Inr [OF assms(2)]
  have d': "year d' = year d" "month d' = month d + 1" "day d' = day d"
    by simp_all
  from assms(1) False have "1 \<le> month d" "month d \<le> 11"
    by (auto simp: valid_date_def check_date_fields_def)
  then have "days_before_month (year d) (month d) < days_before_month (year d) (month d + 1)"
    by (rule days_before_month_Suc)
  then show ?thesis
    using d' by (simp add: toordinal_def ymd2ord_def)
qed

lemma advance_Inr:
  assumes "advance e s = Inr s'"
  shows "next_month (current_date s) = Inr (current_date s')"
    and "time_passed s' = toordinal (current_date s') - toordinal (start_date e)"
    and "month_count s' = month_count s + 1"
    and "history s' = history s @ [snapshot e s']"
    and "principal s' = principal s" and "savings s' = savings s"
    and "total_interest_paid s' = total_interest_paid s"
    and "yearly_principal_snapshot s' = yearly_principal_snapshot s"
    and "early_repay_used s' = early_repay_used s"
    and "early_repay_limit s' = early_repay_limit s"
    and "actual_early_repay s' = actual_early_repay s"
    and "actual_payment s' = actual_payment s"
    and "interest_this_month s' = interest_this_month s"
    and "leftover s' = leftover s"
  using assms
  by (auto simp: advance_def Let_def days_between_def snapshot_def split: sum.splits)

lemma current_date_early_repay [simp]: "current_date (early_repay s) = current_date s"
  by (simp add: early_repay_def Let_def)

lemma current_date_allowance [simp]: "current_date (allowance e s) = current_date s"
  by (simp add: allowance_def Let_def)

lemma current_date_accrue_and_pay [simp]: "current_date (accrue_and_pay e s) = current_date s"
  by (simp add: accrue_and_pay_def Let_def)

lemma loop_body_Inr:
  assumes "loop_body e s = Inr s'"
  shows "valid_date (current_date s')"
    and "time_passed s' = toordinal (current_date s') - toordinal (start_date e)"
    and "valid_date (current_date s) \<Longrightarrow> toordinal (current_date s) < toordinal (current_date s')"
proof -
  note a = advance_Inr(1,2) [OF assms [unfolded loop_body_def]]
  from a(1) have n: "next_month (current_date s) = Inr (current_date s')" by simp
  from n show "valid_date (current_date s')" by (rule next_month_Inr)
  from a(2) show "time_passed s' = toordinal (current_date s') - toordinal (start_date e)" .
  show "toordinal (current_date s) < toordinal (current_date s')" if "valid_date (current_date s)"
    using that n by (rule next_month_toordinal)
qed

termination simulation_loop
proof (relation "measure (\<lambda>(e, s).
    if valid_date (current_date s)
    then nat (toordinal (start_date e) + 21901 - toordinal (current_date s))
    else nat (toordinal (start_date e) + 21901) + 1)")
  show "wf (measure (\<lambda>(e, s).
    if valid_date (current_date s)
    then nat (toordinal (start_date e) + 21901 - toordinal (current_date s))
    else nat (toordinal (start_date e) + 21901) + 1))"
    by simp
next
  fix e s s'
  assume body: "loop_body e s = Inr s'" and nb: "\<not> 365 * 60 < time_passed s'"
  note f = loop_body_Inr [OF body]
  from f(2) nb have le: "toordinal (current_date s') \<le> toordinal (start_date e) + 21900"
    by simp
  show "((e, s'), (e, s)) \<in> measure (\<lambda>(e, s).
    if valid_date (current_date s)
    then nat (toordinal (start_date e) + 21901 - toordinal (current_date s))
    else nat (toordinal (start_date e) + 21901) + 1)"
  proof (cases "valid_date (current_date s)")
    case True
    with f(1) f(3) le show ?thesis by simp
  next
    case False
    with f(1) le toordinal_pos [OF f(1)] show ?thesis by simp
  qed
qed

declare simulation_loop.simps [simp del]

subsection \<open>Rules for the loop\<close>

lemma simulation_loop_rule:
  assumes run: "simulation_loop e s = Inr r"
    and init: "I s"
    and step: "\<And>s s'. I s \<Longrightarrow> loop_cond e s \<Longrightarrow> loop_body e s = Inr s' \<Longrightarrow>
                 \<not> 365 * 60 < time_passed s' \<Longrightarrow> I s'"
    and brk: "\<And>s s'. I s \<Longrightarrow> loop_cond e s \<Longrightarrow> loop_body e s = Inr s' \<Longrightarrow>
                 365 * 60 < time_passed s' \<Longrightarrow> Q s'"
    and fin: "\<And>s. I s \<Longrightarrow> \<not> loop_cond e s \<Longrightarrow> Q s"
  shows "Q r"
  using assms
proof (induction e s rule: simulation_loop.induct)
  case (1 e s)
  note run = "1.prems"(1) and init = "1.prems"(2) and step = "1.prems"(3)
    and brk = "1.prems"(4) and fin = "1.prems"(5)
  show ?case
  proof (cases "loop_cond e s")
    case False
    with run have "r = s" by (simp add: simulation_loop.simps [of e s])
    with fin [OF init False] show ?thesis by simp
  next
    case True
    with run obtain s' where body: "loop_body e s = Inr s'"
      by (auto simp: simulation_loop.simps [of e s] split: sum.splits)
    show ?thesis
    proof (cases "365 * 60 < time_passed s'")
      case True
      with \<open>loop_cond e s\<close> body run have "r = s'"
        by (simp add: simulation_loop.simps [of e s])
      with brk [OF init \<open>loop_cond e s\<close> body True] show ?thesis by simp
    next
      case False
      with \<open>loop_cond e s\<close> body run have "simulation_loop e s' = Inr r"
        by (simp add: simulation_loop.simps [of e s])
      moreover have "I s'"
        using init \<open>loop_cond e s\<close> body False by (rule step)
      ultimately show ?thesis
        using "1.IH" [OF \<open>loop_cond e s\<close> body False] step brk fin by blast
    qed
  qed
qed

lemma simulation_loop_invariant:
  assumes "simulation_loop e s = Inr r" and "I s"
    and "\<And>s s'. I s \<Longrightarrow> loop_cond e s \<Longrightarrow> loop_body e s = Inr s' \<Longrightarrow> I s'"
  shows "I r"
  using assms(1,2) by (rule simulation_loop_rule) (auto intro: assms(3))

lemma simulation_loop_returns:
  assumes init: "I s"
    and step: "\<And>s s'. I s \<Longrightarrow> loop_cond e s \<Longrightarrow> loop_body e s = Inr s' \<Longrightarrow>
                 \<not> 365 * 60 < time_passed s' \<Longrightarrow> I s'"
    and body: "\<And>s. I s \<Longrightarrow> loop_cond e s \<Longrightarrow> \<exists>s'. loop_body e s = Inr s'"
  shows "\<exists>r. simulation_loop e s = Inr r"
  using assms
proof (induction e s rule: simulation_loop.induct)
  case (1 e s)
  note init = "1.prems"(1) and step = "1.prems"(2) and body = "1.prems"(3)
  show ?case
  proof (cases "loop_cond e s")
    case False
    then show ?thesis by (simp add: simulation_loop.simps [of e s])
  next
    case True
    with body [OF init] obtain s' where s': "loop_body e s = Inr s'" by blast
    show ?thesis
    proof (cases "365 * 60 < time_passed s'")
      case True
      with \<open>loop_cond e s\<close> s' show ?thesis by (simp add: simulation_loop.simps [of e s])
    next
      case False
      have "I s'" using init \<open>loop_cond e s\<close> s' False by (rule step)
      with "1.IH" [OF \<open>loop_cond e s\<close> s' False] step body
      obtain r where "simulation_loop e s' = Inr r"
        by blast
      with \<open>loop_cond e s\<close> s' False show ?thesis by (simp add: simulation_loop.simps [of e s])
    qed
  qed
qed

lemma simulation_loop_exit: "\<not> loop_cond e s \<Longrightarrow> simulation_loop e s = Inr s"
  by (simp add: simulation_loop.simps [of e s])

lemma simulation_loop_break:
  "loop_cond e s \<Longrightarrow> loop_body e s = Inr s' \<Longrightarrow> 365 * 60 < time_passed s' \<Longrightarrow>
   simulation_loop e s = Inr s'"
  by (simp add: simulation_loop.simps [of e s])

lemma simulation_loop_continue:
  "loop_cond e s \<Longrightarrow> loop_body e s = Inr s' \<Longrightarrow> \<not> 365 * 60 < time_passed s' \<Longrightarrow>
   simulation_loop e s = simulation_loop e s'"
  by (simp add: simulation_loop.simps [of e s])

lemma simulation_loop_raise:
  "loop_cond e s \<Longrightarrow> loop_body e s = Inl err \<Longrightarrow> simulation_loop e s = Inl err"
  by (simp add: simulation_loop.simps [of e s])

subsection \<open>The phases and the fields they leave alone\<close>

lemma accrue_and_pay_fields [simp]:
  "month_count (accrue_and_pay e s) = month_count s"
  "history (accrue_and_pay e s) = history s"
  "yearly_principal_snapshot (accrue_and_pay e s) = yearly_principal_snapshot s"
  "early_repay_used (accrue_and_pay e s) = early_repay_used s"
  by (simp_all add: accrue_and_pay_def Let_def)

lemma allowance_fields [simp]:
  "month_count (allowance e s) = month_count s"
  "history (allowance e s) = history s"
  "principal (allowance e s) = principal s"
  "savings (allowance e s) = savings s"
  "leftover (allowance e s) = leftover s"
  "total_interest_paid (allowance e s) = total_interest_paid s"
  "actual_payment (allowance e s) = actual_payment s"
  "interest_this_month (allowance e s) = interest_this_month s"
  by (simp_all add: allowance_def Let_def)

lemma early_repay_fields [simp]:
  "month_count (early_repay s) = month_count s"
  "history (early_repay s) = history s"
  "total_interest_paid (early_repay s) = total_interest_paid s"
  "yearly_principal_snapshot (early_repay s) = yearly_principal_snapshot s"
  "early_repay_limit (early_repay s) = early_repay_limit s"
  "actual_payment (early_repay s) = actual_payment s"
  "interest_this_month (early_repay s) = interest_this_month s"
  by (simp_all add: early_repay_def Let_def)

lemma loop_body_fields:
  assumes "loop_body e s = Inr s'"
  shows "next_month (current_date s) = Inr (current_date s')"
    and "month_count s' = month_count s + 1"
    and "history s' = history s @ [snapshot e s']"
    and "principal s' = principal (early_repay (allowance e (accrue_and_pay e s)))"
    and "savings s' = savings (early_repay (allowance e (accrue_and_pay e s)))"
    and "total_interest_paid s' = total_interest_paid (accrue_and_pay e s)"
    and "yearly_principal_snapshot s' = yearly_principal_snapshot (allowance e (accrue_and_pay e s))"
    and "early_repay_used s' = early_repay_used (early_repay (allowance e (accrue_and_pay e s)))"
    and "early_repay_limit s' = early_repay_limit (allowance e (accrue_and_pay e s))"
    and "actual_early_repay s' = actual_early_repay (early_repay (allowance e (accrue_and_pay e s)))"
  using advance_Inr [OF assms [unfolded loop_body_def]] by simp_all

lemma mk_date_same: "mk_date (year d) (month d) (day d) = Inr start \<Longrightarrow> start = d"
  by (auto simp: mk_date_def split: if_splits)

lemma simulate_Inr:
  assumes "minimum_mortgage_repay_time_with_tracking d start_saving amount payment percent n
             mortgage_interest_rate revenue savings_interest_rate projection = Inr (cnt, h, ti)"
  obtains no_limit r where
    "mk_date (year d + n) (month d) (day d) = Inr no_limit"
    "mk_date (year d) (month d) (day d) = Inr d"
    "simulation_loop
       (loop_env amount payment percent mortgage_interest_rate revenue savings_interest_rate
          projection no_limit d)
       (initial_state
          (loop_env amount payment percent mortgage_interest_rate revenue savings_interest_rate
             projection no_limit d) d start_saving) = Inr r"
    "cnt = month_count r" "h = history r" "ti = total_interest_paid r"
proof -
  from assms obtain no_limit start r where
    a: "mk_date (year d + n) (month d) (day d) = Inr no_limit"
    and b: "mk_date (year d) (month d) (day d) = Inr start"
    and c: "simulation_loop
       (loop_env amount payment percent mortgage_interest_rate revenue savings_interest_rate
          projection no_limit start)
       (initial_state
          (loop_env amount payment percent mortgage_interest_rate revenue savings_interest_rate
             projection no_limit start) d start_saving) = Inr r"
    and d: "cnt = month_count r" "h = history r" "ti = total_interest_paid r"
    unfolding minimum_mortgage_repay_time_with_tracking_def
    by (auto simp: Let_def split: sum.splits)
  from b have "start = d" by (rule mk_date_same)
  with a b c d that show thesis by blast
qed

lemma env_fields [simp]:
  "mortgage_amount (loop_env a p c m r sv pr nl st) = a"
  "monthly_payment (loop_env a p c m r sv pr nl st) = p"
  "early_repay_percent (loop_env a p c m r sv pr nl st) = c"
  "monthly_revenue (loop_env a p c m r sv pr nl st) = r"
  "projection_years (loop_env a p c m r sv pr nl st) = pr"
  "monthly_mortgage_rate (loop_env a p c m r sv pr nl st) = m / 12"
  "monthly_savings_rate (loop_env a p c m r sv pr nl st) = sv / 12"
  "start_no_limit_allowance_date (loop_env a p c m r sv pr nl st) = nl"
  "start_date (loop_env a p c m r sv pr nl st) = st"
  by (simp_all add: loop_env_def)

lemma initial_state_fields [simp]:
  "current_date (initial_state e d ss) = d"
  "principal (initial_state e d ss) = mortgage_amount e"
  "savings (initial_state e d ss) = ss"
  "month_count (initial_state e d ss) = 0"
  "total_interest_paid (initial_state e d ss) = 0"
  "yearly_principal_snapshot (initial_state e d ss) = mortgage_amount e"
  "early_repay_used (initial_state e d ss) = 0"
  "history (initial_state e d ss) = [snapshot e (initial_state e d ss)]"
  by (simp_all add: initial_state_def Let_def snapshot_def)

lemma simulation_loop_history:
  assumes "simulation_loop e s = Inr r"
  shows "\<exists>t. history r = history s @ t" and "month_count s \<le> month_count r"
proof -
  let ?I = "\<lambda>u. (\<exists>t. history u = history s @ t) \<and> month_count s \<le> month_count u"
  have "?I r"
    using assms
  proof (rule simulation_loop_invariant)
    show "?I s" by simp
  next
    fix u u'
    assume "?I u" and "loop_body e u = Inr u'"
    then show "?I u'"
      by (auto simp: loop_body_fields(2,3))
  qed
  then show "\<exists>t. history r = history s @ t" and "month_count s \<le> month_count r"
    by simp_all
qed

lemma simulation_loop_first_month:
  assumes "simulation_loop e s = Inr r" and "loop_cond e s"
  obtains s' where "loop_body e s = Inr s'"
    and "\<exists>t. history r = history s' @ t" and "month_count s' \<le> month_count r"
proof -
  from assms obtain s' where body: "loop_body e s = Inr s'"
    by (auto simp: simulation_loop.simps [of e s] split: sum.splits)
  show thesis
  proof (cases "365 * 60 < time_passed s'")
    case True
    with assms body have "r = s'" by (simp add: simulation_loop_break)
    with body that show thesis by simp
  next
    case False
    with assms body have "simulation_loop e s' = Inr r"
      by (simp add: simulation_loop_continue)
    from simulation_loop_history [OF this] body that show thesis by blast
  qed
qed

subsection \<open>The invariant of the balances\<close>

lemma accrue_and_pay_props:
  "principal (accrue_and_pay e s) =
     principal s + principal s * monthly_mortgage_rate e - actual_payment (accrue_and_pay e s)"
  "total_interest_paid (accrue_and_pay e s) =
     total_interest_paid s + principal s * monthly_mortgage_rate e"
  "actual_payment (accrue_and_pay e s) =
     min (monthly_payment e) (principal s + principal s * monthly_mortgage_rate e)"
  "savings (accrue_and_pay e s) = savings s * (1 + monthly_savings_rate e)"
  "leftover (accrue_and_pay e s) = monthly_revenue e - actual_payment (accrue_and_pay e s)"
  by (simp_all add: accrue_and_pay_def Let_def)

lemma accrue_and_pay_nonneg:
  assumes "env_ok e" and "0 \<le> principal s" and "0 \<le> savings s"
  shows "0 \<le> principal (accrue_and_pay e s)" and "0 \<le> savings (accrue_and_pay e s)"
    and "0 \<le> actual_payment (accrue_and_pay e s)"
    and "0 \<le> principal s * monthly_mortgage_rate e"
proof -
  from assms show i: "0 \<le> principal s * monthly_mortgage_rate e"
    by (simp add: env_ok_def)
  from assms show "0 \<le> savings (accrue_and_pay e s)"
    by (simp add: accrue_and_pay_props env_ok_def)
  from assms i show "0 \<le> actual_payment (accrue_and_pay e s)"
    by (simp add: accrue_and_pay_props env_ok_def)
  show "0 \<le> principal (accrue_and_pay e s)"
    by (simp add: accrue_and_pay_props)
qed

lemma allowance_props:
  "yearly_principal_snapshot (allowance e s) =
     (if month (current_date s) = 1 \<and> day (current_date s) = 1 then principal s
      else yearly_principal_snapshot s)"
  "early_repay_used (allowance e s) =
     (if month (current_date s) = 1 \<and> day (current_date s) = 1 then 0 else early_repay_used s)"
  "early_repay_limit (allowance e s) =
     (if capped e s
      then yearly_principal_snapshot (allowance e s) * early_repay_percent e
           - early_repay_used (allowance e s)
      else principal s)"
  by (auto simp: allowance_def capped_def Let_def)

lemma allowance_limit_nonneg:
  assumes "0 \<le> early_repay_percent e" and "0 \<le> principal s"
    and "capped e s \<longrightarrow> early_repay_used s \<le> yearly_principal_snapshot s * early_repay_percent e"
  shows "0 \<le> early_repay_limit (allowance e s)"
  using assms by (simp add: allowance_props)

lemma early_repay_props:
  "actual_early_repay (early_repay s) =
     min (min (leftover s + savings s) (early_repay_limit s)) (principal s)"
  "principal (early_repay s) = principal s - actual_early_repay (early_repay s)"
  "early_repay_used (early_repay s) = early_repay_used s + actual_early_repay (early_repay s)"
  by (simp_all add: early_repay_def Let_def)

lemma early_repay_savings:
  "savings (early_repay s) =
     (if leftover s < actual_early_repay (early_repay s)
      then max 0 (savings s - (actual_early_repay (early_repay s) - leftover s))
      else savings s + (leftover s - actual_early_repay (early_repay s)))"
  by (simp add: early_repay_def Let_def)

lemma early_repay_nonneg:
  assumes "0 \<le> savings s"
  shows "0 \<le> principal (early_repay s)" and "0 \<le> savings (early_repay s)"
proof -
  show "0 \<le> principal (early_repay s)"
    by (simp add: early_repay_props)
  have "actual_early_repay (early_repay s) \<le> leftover s + savings s"
    by (simp add: early_repay_props)
  with assms show "0 \<le> savings (early_repay s)"
    by (simp add: early_repay_savings)
qed

lemma next_month_date_less:
  assumes "next_month d = Inr d'" and "date_less d' t"
  shows "date_less d t"
  using next_month_Inr(2-4) [OF assms(1)] assms(2)
  by (cases "month d = 12") (auto simp: date_less_def)

lemma balances_ok_step:
  assumes e: "env_ok e" and s: "balances_ok e s" and body: "loop_body e s = Inr s'"
  shows "balances_ok e s'"
proof -
  let ?a = "accrue_and_pay e s"
  let ?b = "allowance e ?a"
  let ?c = "early_repay ?b"
  note f = loop_body_fields [OF body]
  from s have s0: "0 \<le> principal s" "0 \<le> savings s" by (simp_all add: balances_ok_def)
  note a = accrue_and_pay_nonneg [OF e s0]
  from a(2) have "0 \<le> savings ?b" by simp
  then have c: "0 \<le> principal ?c" "0 \<le> savings ?c" by (rule early_repay_nonneg)+
  have "early_repay_used s' \<le> yearly_principal_snapshot s' * early_repay_percent e"
    if "capped e s'"
  proof -
    from that f(1) have "capped e s"
      unfolding capped_def by (metis next_month_date_less)
    then have "capped e ?a" by (simp add: capped_def)
    then have "early_repay_limit ?b =
      yearly_principal_snapshot ?b * early_repay_percent e - early_repay_used ?b"
      by (simp add: allowance_props)
    moreover have "actual_early_repay ?c \<le> early_repay_limit ?b"
      by (simp add: early_repay_props)
    ultimately show ?thesis
      by (simp add: f early_repay_props)
  qed
  with c f show ?thesis by (simp add: balances_ok_def)
qed

lemma balances_ok_initial:
  assumes "0 \<le> mortgage_amount e" and "0 \<le> start_saving" and "0 \<le> early_repay_percent e"
  shows "balances_ok e (initial_state e d start_saving)"
  using assms by (simp add: balances_ok_def)

lemma balances_ok_env:
  assumes "0 \<le> payment" "0 \<le> percent" "0 \<le> mortgage_interest_rate" "0 \<le> revenue"
    "0 \<le> savings_interest_rate"
  shows "env_ok (loop_env amount payment percent mortgage_interest_rate revenue
                   savings_interest_rate projection no_limit start)"
  using assms by (simp add: env_ok_def)

lemma loop_head_run: "loop_head e s0 s \<Longrightarrow> simulation_loop e s0 = simulation_loop e s"
  by (induction rule: loop_head.induct) (simp_all add: simulation_loop_continue)


subsection \<open>The date after a number of months\<close>

lemma months_inv_initial:
  assumes "valid_date d" and "start_date e = d"
  shows "months_inv e (initial_state e d start_saving)"
  using assms by (simp add: months_inv_def valid_date_def check_date_fields_def)

lemma months_inv_step:
  assumes "months_inv e s" and "loop_body e s = Inr s'"
  shows "months_inv e s'"
proof -
  note f = loop_body_fields(1,2) [OF assms(2)]
  note n = next_month_Inr [OF f(1)]
  show ?thesis
  proof (cases "month (current_date s) = 12")
    case True
    with n(3) have "year (current_date s') = year (current_date s) + 1"
      "month (current_date s') = 1" by simp_all
    with assms(1) True n(2) f(2) show ?thesis by (simp add: months_inv_def)
  next
    case False
    with n(4) have "year (current_date s') = year (current_date s)"
      "month (current_date s') = month (current_date s) + 1" by simp_all
    with assms(1) False n(2) f(2) show ?thesis by (simp add: months_inv_def)
  qed
qed

lemma days_before_month_same:
  "days_before_month y m \<le> days_before_month y' m + 1"
  by (simp add: days_before_month_def)

lemma months_inv_years:
  assumes "months_inv e s"
  shows "year (start_date e) \<le> year (current_date s)"
    and "12 * (year (current_date s) - year (start_date e)) \<le> month_count s + 11"
    and "month_count s \<le> 12 * (year (current_date s) - year (start_date e)) + 11"
  using assms by (simp_all add: months_inv_def valid_date_def check_date_fields_def)

lemma elapsed_after_720_months:
  assumes "months_inv e s" and "month_count s = 720"
  shows "21900 < toordinal (current_date s) - toordinal (start_date e)"
proof -
  let ?y = "year (start_date e)" and ?m = "month (start_date e)"
  from assms have m: "1 \<le> ?m" "?m \<le> 12" "1 \<le> month (current_date s)" "month (current_date s) \<le> 12"
    and eq: "12 * year (current_date s) + month (current_date s) = 12 * ?y + ?m + 720"
    and dd: "day (current_date s) = day (start_date e)"
    by (simp_all add: months_inv_def valid_date_def check_date_fields_def)
  from m eq have y: "year (current_date s) = ?y + 60"
    by linarith
  with eq have mm: "month (current_date s) = ?m"
    by simp
  have "days_before_year ?y + 365 * 60 + 60 div 4 - 1 \<le> days_before_year (?y + 60)"
    by (rule days_before_year_add) simp_all
  moreover have "days_before_month ?y ?m \<le> days_before_month (?y + 60) ?m + 1"
    by (rule days_before_month_same)
  ultimately show ?thesis
    by (simp add: toordinal_def ymd2ord_def y mm dd)
qed

lemma elapsed_within_10_years:
  assumes "months_inv e s" and "month_count s \<le> 120"
  shows "toordinal (current_date s) - toordinal (start_date e) \<le> 21900"
proof -
  let ?y = "year (start_date e)" and ?m = "month (start_date e)"
  define j where "j = year (current_date s) - ?y"
  from assms(1) have m: "1 \<le> ?m" "?m \<le> 12" "1 \<le> month (current_date s)" "month (current_date s) \<le> 12"
    and dd: "day (current_date s) = day (start_date e)"
    by (simp_all add: months_inv_def valid_date_def check_date_fields_def)
  from months_inv_years [OF assms(1)] assms(2) have j: "0 \<le> j" "j \<le> 10"
    by (simp_all add: j_def)
  then have "j \<le> 99" by simp
  with j(1) have "days_before_year (?y + j) \<le> days_before_year ?y + 365 * j + j div 4 + 2"
    by (rule days_before_year_add)
  moreover from j have "365 * j + j div 4 \<le> 3652" by linarith
  moreover have "days_before_month (?y + j) (month (current_date s)) \<le> 335"
    using m(3,4) by (rule days_before_month_le)
  moreover have "0 \<le> days_before_month ?y ?m"
    using m(1,2) by (rule days_before_month_nonneg)
  moreover have "year (current_date s) = ?y + j" by (simp add: j_def)
  ultimately show ?thesis
    by (simp add: toordinal_def ymd2ord_def dd)
qed

lemma days_in_month_ge_28: "1 \<le> m \<Longrightarrow> m \<le> 12 \<Longrightarrow> 28 \<le> days_in_month y m"
  using month_cases [of m] by (auto simp: days_in_month_def DAYS_IN_MONTH_def)

lemma mk_date_ok:
  assumes "1 \<le> y" "y \<le> 9999" "1 \<le> m" "m \<le> 12" "1 \<le> dd" "dd \<le> 28"
  shows "mk_date y m dd = Inr \<lparr>year = y, month = m, day = dd\<rparr>"
  using assms days_in_month_ge_28 [of m y]
  by (simp add: mk_date_def check_date_fields_def MINYEAR_def MAXYEAR_def)

lemma loop_body_returns:
  assumes "next_month (current_date s) = Inr d'"
  shows "\<exists>s'. loop_body e s = Inr s'"
  using assms by (simp add: loop_body_def advance_def Let_def)

lemma next_month_returns:
  assumes inv: "months_inv e s" and cnt: "month_count s \<le> 719"
    and day: "day (start_date e) \<le> 28" and yr: "year (start_date e) + 60 \<le> 9999"
  shows "\<exists>d'. next_month (current_date s) = Inr d'"
proof -
  let ?c = "current_date s"
  from inv have v: "1 \<le> year (start_date e)" "1 \<le> day (start_date e)"
    "1 \<le> month (start_date e)" "month (start_date e) \<le> 12"
    by (simp_all add: months_inv_def valid_date_def check_date_fields_def MINYEAR_def)
  from inv have c: "1 \<le> month ?c" "month ?c \<le> 12" "day ?c = day (start_date e)"
    and eq: "12 * year ?c + month ?c = 12 * year (start_date e) + month (start_date e) + month_count s"
    and c0: "0 \<le> month_count s"
    by (simp_all add: months_inv_def)
  show ?thesis
  proof (cases "month ?c = 12")
    case True
    from eq True v cnt c0 have "year (start_date e) \<le> year ?c" "year ?c + 1 \<le> year (start_date e) + 60"
      by linarith+
    with v yr have "1 \<le> year ?c + 1" "year ?c + 1 \<le> 9999" by linarith+
    then have "mk_date (year ?c + 1) 1 (day ?c) = Inr \<lparr>year = year ?c + 1, month = 1, day = day ?c\<rparr>"
      using v(2) day c(3) by (intro mk_date_ok) simp_all
    with True show ?thesis by (simp add: next_month_def replace_date_def)
  next
    case False
    from eq c v cnt c0 have "year (start_date e) \<le> year ?c" "year ?c \<le> year (start_date e) + 60"
      by linarith+
    with v yr have "1 \<le> year ?c" "year ?c \<le> 9999" by linarith+
    moreover from False c have "1 \<le> month ?c + 1" "month ?c + 1 \<le> 12" by linarith+
    ultimately have "mk_date (year ?c) (month ?c + 1) (day ?c) =
        Inr \<lparr>year = year ?c, month = month ?c + 1, day = day ?c\<rparr>"
      using v(2) day c(3) by (intro mk_date_ok) simp_all
    with False show ?thesis by (simp add: next_month_def replace_date_def)
  qed
qed

lemma simulation_loop_completes:
  assumes inv: "months_inv e s" and cnt: "month_count s \<le> 719"
    and day: "day (start_date e) \<le> 28" and yr: "year (start_date e) + 60 \<le> 9999"
  shows "\<exists>r. simulation_loop e s = Inr r"
proof (rule simulation_loop_returns [where I = "\<lambda>s. months_inv e s \<and> month_count s \<le> 719"])
  from inv cnt show "months_inv e s \<and> month_count s \<le> 719" by simp
next
  fix s s'
  assume I: "months_inv e s \<and> month_count s \<le> 719" and body: "loop_body e s = Inr s'"
    and nb: "\<not> 365 * 60 < time_passed s'"
  from I body have inv': "months_inv e s'" by (blast intro: months_inv_step)
  have "month_count s' \<noteq> 720"
  proof
    assume "month_count s' = 720"
    with inv' have "21900 < toordinal (current_date s') - toordinal (start_date e)"
      by (rule elapsed_after_720_months)
    with loop_body_Inr(2) [OF body] nb show False by simp
  qed
  with I inv' loop_body_fields(2) [OF body] show "months_inv e s' \<and> month_count s' \<le> 719"
    by simp
next
  fix s
  assume I: "months_inv e s \<and> month_count s \<le> 719"
  with day yr obtain d' where "next_month (current_date s) = Inr d'"
    using next_month_returns [of e s] by blast
  then show "\<exists>s'. loop_body e s = Inr s'" by (rule loop_body_returns)
qed

text \<open>No date of the run raises when the day exists in every month and the years stay
  in the range of dates.\<close>

lemma simulate_returns:
  assumes d: "check_date_fields (year d) (month d) (day d)" and day: "day d \<le> 28"
    and n: "0 \<le> n" "year d + n \<le> 9999" and yr: "year d + 60 \<le> 9999"
  shows "\<exists>cnt h ti.
           minimum_mortgage_repay_time_with_tracking d start_saving amount payment percent n
             mortgage_interest_rate revenue savings_interest_rate projection = Inr (cnt, h, ti)"
proof -
  from d have f: "1 \<le> year d" "1 \<le> month d" "month d \<le> 12" "1 \<le> day d"
    by (simp_all add: check_date_fields_def MINYEAR_def)
  from d have dd: "mk_date (year d) (month d) (day d) = Inr d"
    by (simp add: mk_date_def)
  from f n day have nl: "mk_date (year d + n) (month d) (day d) =
      Inr \<lparr>year = year d + n, month = month d, day = day d\<rparr>"
    by (intro mk_date_ok) simp_all
  let ?e = "loop_env amount payment percent mortgage_interest_rate revenue savings_interest_rate
          projection \<lparr>year = year d + n, month = month d, day = day d\<rparr> d"
  from d have "valid_date d" by (simp add: valid_date_def)
  then have "months_inv ?e (initial_state ?e d start_saving)"
    by (rule months_inv_initial) simp
  then have "\<exists>r. simulation_loop ?e (initial_state ?e d start_saving) = Inr r"
    using day yr by (intro simulation_loop_completes) simp_all
  then obtain r where "simulation_loop ?e (initial_state ?e d start_saving) = Inr r" ..
  with dd nl show ?thesis
    by (simp add: minimum_mortgage_repay_time_with_tracking_def Let_def)
qed

subsection \<open>Evaluated months and runs\<close>

lemmas calendar_defs =
  mk_date_def check_date_fields_def days_in_month_def is_leap_def DAYS_IN_MONTH_def
  MINYEAR_def MAXYEAR_def next_month_def replace_date_def days_between_def toordinal_def
  ymd2ord_def days_before_year_def days_before_month_def DAYS_BEFORE_MONTH_def date_less_def

lemmas month_defs =
  loop_body_def accrue_and_pay_def allowance_def early_repay_def advance_def snapshot_def
  loop_cond_def initial_state_def loop_env_def

lemma one_month_run:
  "minimum_mortgage_repay_time_with_tracking \<lparr>year = 2025, month = 8, day = 1\<rparr>
     5000 10000 500 1 0 0 10500 0 0 =
   Inr (1,
     [\<lparr>date = \<lparr>year = 2025, month = 8, day = 1\<rparr>, principal_remaining = 10000,
       entry_savings = 5000, interest_paid = 0, total_paid = 0\<rparr>,
      \<lparr>date = \<lparr>year = 2025, month = 9, day = 1\<rparr>, principal_remaining = 0,
       entry_savings = 5500, interest_paid = 0, total_paid = 10000\<rparr>], 0)"
proof -
  let ?d = "\<lparr>year = 2025, month = 8, day = 1\<rparr>"
  let ?e = "loop_env 10000 500 1 0 10500 0 0 ?d ?d"
  let ?s0 = "initial_state ?e ?d 5000"
  obtain s1 where s1: "s1 = ?s0\<lparr>current_date := \<lparr>year = 2025, month = 9, day = 1\<rparr>,
      principal := 0, savings := 5500, month_count := 1,
      history := [snapshot ?e ?s0, \<lparr>date = \<lparr>year = 2025, month = 9, day = 1\<rparr>, principal_remaining = 0,
       entry_savings = 5500, interest_paid = 0, total_paid = 10000\<rparr>],
      early_repay_used := 9500, time_passed := 31, actual_payment := 500, leftover := 500,
      early_repay_limit := 9500, actual_early_repay := 9500\<rparr>" by simp
  have c0: "loop_cond ?e ?s0" by (simp add: month_defs)
  have b0: "loop_body ?e ?s0 = Inr s1"
    unfolding s1 by (simp add: month_defs calendar_defs Let_def)
  have c1: "\<not> loop_cond ?e s1" unfolding s1 by (simp add: month_defs)
  have "simulation_loop ?e ?s0 = Inr s1"
    using c0 b0 c1 by (simp add: simulation_loop_continue simulation_loop_exit s1)
  then show ?thesis
    unfolding minimum_mortgage_repay_time_with_tracking_def
    by (simp add: mk_date_def check_date_fields_def days_in_month_def is_leap_def DAYS_IN_MONTH_def
        MINYEAR_def MAXYEAR_def Let_def s1 snapshot_def initial_state_def loop_env_def)
qed

lemma payoff_month: "\<exists>s'. loop_body payoff_env payoff_state = Inr s'"
  by (simp add: payoff_env_def payoff_state_def month_defs calendar_defs Let_def)

lemma payoff_values:
  "\<not> date_less (current_date payoff_state) (start_no_limit_allowance_date payoff_env)"
  "principal (accrue_and_pay payoff_env payoff_state) = 9500"
  "leftover (accrue_and_pay payoff_env payoff_state) = 10000"
  "savings (accrue_and_pay payoff_env payoff_state) = 5000"
  by (simp_all add: payoff_env_def payoff_state_def accrue_and_pay_props date_less_def)

lemma january_month:
  "\<exists>s'. loop_body january_env january_state = Inr s' \<and>
     current_date s' = \<lparr>year = 2026, month = 2, day = 1\<rparr> \<and>
     principal s' = 810 \<and> savings s' = 810 \<and> yearly_principal_snapshot s' = 900 \<and>
     early_repay_used s' = 90 \<and> early_repay_limit s' = 90 \<and> actual_early_repay s' = 90"
  by (simp add: january_env_def january_state_def month_defs calendar_defs Let_def)

lemma january_capped:
  "date_less (current_date january_state) (start_no_limit_allowance_date january_env)"
  by (simp add: january_env_def january_state_def date_less_def)

section \<open>Facts about rounding and the model with rounding\<close>

subsection \<open>Rounding to binary64\<close>

lemma round_even_of_int [simp]: "round_even (of_int n) = n"
  by (simp add: round_even_def)

lemma round_even_near:
  assumes "\<bar>q - of_int n\<bar> < 1 / 2"
  shows "round_even q = n"
proof -
  from assms have "\<lfloor>q\<rfloor> = n \<or> \<lfloor>q\<rfloor> = n - 1" by linarith
  then show ?thesis
  proof
    assume f: "\<lfloor>q\<rfloor> = n"
    with assms have "q - of_int n < 1 / 2" by linarith
    with f show ?thesis by (simp add: round_even_def Let_def)
  next
    assume f: "\<lfloor>q\<rfloor> = n - 1"
    with assms have "1 / 2 < q - of_int (n - 1)" by linarith
    with f show ?thesis by (simp add: round_even_def Let_def)
  qed
qed

lemma round_even_bounds: "of_int \<lfloor>q\<rfloor> \<le> (of_int (round_even q) :: real)"
  "round_even q \<le> \<lfloor>q\<rfloor> + 1"
  by (simp_all add: round_even_def Let_def)

lemma round_even_mono:
  assumes "q \<le> q'"
  shows "round_even q \<le> round_even q'"
proof (cases "\<lfloor>q\<rfloor> = \<lfloor>q'\<rfloor>")
  case True
  with assms show ?thesis
    by (auto simp: round_even_def Let_def)
next
  case False
  with assms have "\<lfloor>q\<rfloor> < \<lfloor>q'\<rfloor>" by (simp add: floor_mono order.strict_iff_order)
  with round_even_bounds(2) [of q] round_even_bounds(1) [of q'] show ?thesis
    by linarith
qed

lemma round_even_ge: "of_int k \<le> q \<Longrightarrow> k \<le> round_even q"
  using round_even_mono [of "of_int k" q] by simp

lemma round_even_le: "q \<le> of_int k \<Longrightarrow> round_even q \<le> k"
  using round_even_mono [of q "of_int k"] by simp

text \<open>The binade of a positive number.\<close>

lemma powr_shift:
  "2 powr (of_int k + 52) = 2 ^ 52 * (2::real) powr of_int k"
  "2 powr (of_int k + 53) = 2 ^ 53 * (2::real) powr of_int k"
  using powr_add [of "2::real" "of_int k" 52] powr_add [of "2::real" "of_int k" 53]
  by simp_all

lemma binade:
  assumes "0 < x"
  shows "2 ^ 52 * ulp_of x \<le> x" and "x < 2 ^ 53 * ulp_of x" and "0 < ulp_of x"
proof -
  let ?e = "\<lfloor>log 2 x\<rfloor>"
  have "2 powr of_int ?e \<le> x \<and> x < 2 powr of_int (?e + 1)"
    using assms floor_log_eq_powr_iff [of x 2 ?e] by simp
  moreover have "2 powr of_int ?e = 2 ^ 52 * ulp_of x"
    using assms powr_shift(1) [of "?e - 52"] by (simp add: ulp_of_def)
  moreover have "2 powr of_int (?e + 1) = 2 ^ 53 * ulp_of x"
    using assms powr_shift(2) [of "?e - 52"] by (simp add: ulp_of_def add.commute)
  ultimately show "2 ^ 52 * ulp_of x \<le> x" and "x < 2 ^ 53 * ulp_of x" by simp_all
  show "0 < ulp_of x" by (simp add: ulp_of_def)
qed

lemma ulp_of_eq:
  assumes "0 < x" and "2 ^ 52 * 2 powr of_int k \<le> x" and "x < 2 ^ 53 * 2 powr of_int k"
  shows "ulp_of x = 2 powr of_int k"
proof -
  have "2 powr of_int (k + 52) = 2 ^ 52 * (2::real) powr of_int k"
    using powr_shift(1) [of k] by simp
  moreover have "2 powr of_int (k + 52 + 1) = 2 ^ 53 * (2::real) powr of_int k"
    using powr_shift(2) [of k] by (simp add: add.assoc)
  ultimately have "\<lfloor>log 2 x\<rfloor> = k + 52"
    using assms floor_log_eq_powr_iff [of x 2 "k + 52"] by simp
  with assms(1) show ?thesis by (simp add: ulp_of_def)
qed

lemma fl64_pos:
  assumes "0 < x"
  shows "fl64 x = of_int (round_even (x / ulp_of x)) * ulp_of x"
  using assms by (simp add: fl64_def)

lemma fl64_minus: "fl64 (- x) = - fl64 x"
  by (simp add: fl64_def ulp_of_def)

lemma fl64_zero [simp]: "fl64 0 = 0"
  by (simp add: fl64_def)

lemma fl64_pos_bounds:
  assumes "0 < x"
  shows "2 ^ 52 * ulp_of x \<le> fl64 x" and "fl64 x \<le> 2 ^ 53 * ulp_of x"
proof -
  note b = binade [OF assms]
  from b have "of_int (2 ^ 52) \<le> x / ulp_of x"
    by (simp add: pos_le_divide_eq)
  then have "2 ^ 52 \<le> round_even (x / ulp_of x)" by (rule round_even_ge)
  then have "(2 ^ 52 :: real) \<le> of_int (round_even (x / ulp_of x))"
    by (metis of_int_le_iff of_int_numeral of_int_power)
  with b(3) show "2 ^ 52 * ulp_of x \<le> fl64 x"
    by (simp add: fl64_pos [OF assms])
  from b have "x / ulp_of x \<le> of_int (2 ^ 53)"
    by (simp add: pos_divide_le_eq)
  then have "round_even (x / ulp_of x) \<le> 2 ^ 53" by (rule round_even_le)
  then have "of_int (round_even (x / ulp_of x)) \<le> (2 ^ 53 :: real)"
    by (metis of_int_le_iff of_int_numeral of_int_power)
  with b(3) show "fl64 x \<le> 2 ^ 53 * ulp_of x"
    by (simp add: fl64_pos [OF assms])
qed

lemma fl64_pos_gt: "0 < x \<Longrightarrow> 0 < fl64 x"
  using fl64_pos_bounds(1) [of x] binade(3) [of x]
  by (smt (verit) mult_pos_pos zero_less_numeral zero_less_power)

lemma ulp_of_mono:
  assumes "0 < x" "x \<le> y"
  shows "ulp_of x \<le> ulp_of y"
proof -
  from assms have "log 2 x \<le> log 2 y" by simp
  then have "\<lfloor>log 2 x\<rfloor> \<le> \<lfloor>log 2 y\<rfloor>" by (rule floor_mono)
  with assms show ?thesis by (simp add: ulp_of_def)
qed

lemma fl64_mono_pos:
  assumes "0 < x" "x \<le> y"
  shows "fl64 x \<le> fl64 y"
proof (cases "\<lfloor>log 2 x\<rfloor> = \<lfloor>log 2 y\<rfloor>")
  case True
  with assms have u: "ulp_of x = ulp_of y" by (simp add: ulp_of_def)
  from assms have y: "0 < y" by simp
  note b = binade(3) [OF y]
  from assms b have "x / ulp_of y \<le> y / ulp_of y" by (simp add: divide_right_mono)
  then have "round_even (x / ulp_of y) \<le> round_even (y / ulp_of y)" by (rule round_even_mono)
  with b show ?thesis
    by (simp add: fl64_pos [OF assms(1)] fl64_pos [OF y] u)
next
  case False
  from assms have y: "0 < y" by simp
  from assms have "log 2 x \<le> log 2 y" by simp
  then have "\<lfloor>log 2 x\<rfloor> \<le> \<lfloor>log 2 y\<rfloor>" by (rule floor_mono)
  with False have "\<lfloor>log 2 x\<rfloor> + 1 \<le> \<lfloor>log 2 y\<rfloor>" by simp
  then have "real_of_int \<lfloor>log 2 x\<rfloor> - 51 \<le> real_of_int \<lfloor>log 2 y\<rfloor> - 52" by linarith
  then have "(2::real) powr (real_of_int \<lfloor>log 2 x\<rfloor> - 51)
               \<le> 2 powr (real_of_int \<lfloor>log 2 y\<rfloor> - 52)"
    by (rule powr_mono) simp
  moreover have "(2::real) powr (real_of_int \<lfloor>log 2 x\<rfloor> - 51) = 2 * ulp_of x"
    using assms(1) powr_add [of "2::real" 1 "real_of_int \<lfloor>log 2 x\<rfloor> - 52"]
    by (simp add: ulp_of_def)
  moreover have "ulp_of y = 2 powr (real_of_int \<lfloor>log 2 y\<rfloor> - 52)"
    using y by (simp add: ulp_of_def)
  ultimately have "2 * ulp_of x \<le> ulp_of y"
    by simp
  then have "2 ^ 53 * ulp_of x \<le> 2 ^ 52 * ulp_of y" by simp
  with fl64_pos_bounds(2) [OF assms(1)] fl64_pos_bounds(1) [OF y] show ?thesis
    by linarith
qed

lemma fl64_mono:
  assumes "x \<le> y"
  shows "fl64 x \<le> fl64 y"
proof -
  consider "0 < x" | "x = 0" "0 < y" | "x = 0" "y = 0" | "x < 0" "0 \<le> y" | "y < 0"
    using assms by linarith
  then show ?thesis
  proof cases
    case 1
    from 1 assms show ?thesis by (rule fl64_mono_pos)
  next
    case 2
    then show ?thesis using fl64_pos_gt [of y] by simp
  next
    case 3
    then show ?thesis by simp
  next
    case 4
    then have "0 < fl64 (- x)" by (simp add: fl64_pos_gt)
    then have "fl64 x < 0" by (simp add: fl64_minus)
    moreover from 4 have "0 \<le> fl64 y"
      using fl64_pos_gt [of y] by (cases "y = 0") auto
    ultimately show ?thesis by simp
  next
    case 5
    with assms have "0 < - y" "- y \<le> - x" by simp_all
    then have "fl64 (- y) \<le> fl64 (- x)" by (rule fl64_mono_pos)
    then show ?thesis by (simp add: fl64_minus)
  qed
qed

lemma fl64_idem_pos:
  assumes "0 < x"
  shows "fl64 (fl64 x) = fl64 x"
proof -
  let ?u = "ulp_of x"
  let ?N = "round_even (x / ?u)"
  note b = binade [OF assms]
  note fb = fl64_pos_bounds [OF assms]
  have fx: "fl64 x = of_int ?N * ?u" by (rule fl64_pos [OF assms])
  have pos: "0 < fl64 x" by (rule fl64_pos_gt [OF assms])
  define k where "k = \<lfloor>log 2 \<bar>x\<bar>\<rfloor> - 52"
  have k: "?u = 2 powr of_int k"
    by (simp add: ulp_of_def k_def)
  show ?thesis
  proof (cases "fl64 x < 2 ^ 53 * ?u")
    case True
    with fb(1) pos have "ulp_of (fl64 x) = 2 powr of_int k"
      unfolding k by (intro ulp_of_eq) simp_all
    then have u': "ulp_of (fl64 x) = ?u" by (simp add: k)
    from b(3) fx have q: "fl64 x / ?u = of_int ?N" by simp
    have "fl64 (fl64 x) = of_int (round_even (fl64 x / ?u)) * ?u"
      by (simp only: fl64_pos [OF pos] u')
    also have "\<dots> = of_int ?N * ?u"
      by (simp only: q round_even_of_int)
    also have "\<dots> = fl64 x"
      by (simp only: fx)
    finally show ?thesis .
  next
    case False
    with fb(2) have eq: "fl64 x = 2 ^ 53 * ?u" by simp
    have "2 powr (real_of_int k + 1) = 2 * (2::real) powr of_int k"
      using powr_add [of "2::real" 1 "of_int k"] by (simp add: add.commute)
    then have k1: "2 powr (real_of_int k + 1) = 2 * ?u" by (simp add: k)
    have "ulp_of (fl64 x) = 2 powr of_int (k + 1)"
    proof (rule ulp_of_eq [OF pos])
      show "2 ^ 52 * 2 powr real_of_int (k + 1) \<le> fl64 x" by (simp add: k1 eq)
      show "fl64 x < 2 ^ 53 * 2 powr real_of_int (k + 1)"
        using b(3) by (simp add: k1 eq)
    qed
    then have u': "ulp_of (fl64 x) = 2 * ?u" by (simp add: k1)
    from b(3) eq have q: "fl64 x / (2 * ?u) = of_int (2 ^ 52)" by simp
    have "fl64 (fl64 x) = of_int (round_even (fl64 x / (2 * ?u))) * (2 * ?u)"
      by (simp only: fl64_pos [OF pos] u')
    also have "\<dots> = of_int (2 ^ 52) * (2 * ?u)"
      by (simp only: q round_even_of_int)
    also have "\<dots> = fl64 x"
      by (simp add: eq)
    finally show ?thesis .
  qed
qed

lemma fl64_idem: "fl64 (fl64 x) = fl64 x"
proof -
  consider "0 < x" | "x = 0" | "x < 0" by linarith
  then show ?thesis
  proof cases
    case 1
    then show ?thesis by (rule fl64_idem_pos)
  next
    case 2
    then show ?thesis by simp
  next
    case 3
    then have "fl64 (fl64 (- x)) = fl64 (- x)" by (simp add: fl64_idem_pos)
    then show ?thesis by (simp add: fl64_minus)
  qed
qed

lemma rounding_fl64: "rounding fl64"
  by (simp add: rounding_def fl64_mono fl64_idem)

lemma rounding_id: "rounding (\<lambda>x. x)"
  by (simp add: rounding_def)

text \<open>Evaluating a rounding: the multiple of the unit in the last place that is nearer
  than half a unit.\<close>

lemma fl64_nearest:
  assumes x: "0 < x" and u: "u = 2 powr of_int k"
    and lo: "2 ^ 52 * u \<le> x" and hi: "x < 2 ^ 53 * u"
    and near: "\<bar>x - of_int N * u\<bar> < u / 2"
  shows "fl64 x = of_int N * u"
proof -
  from x lo hi have uu: "ulp_of x = u" unfolding u by (rule ulp_of_eq)
  have up: "0 < u" by (simp add: u)
  have "\<bar>x / u - of_int N\<bar> = \<bar>x - of_int N * u\<bar> / u"
    using up by (simp add: field_simps abs_if)
  also from near up have "\<dots> < 1 / 2" by (simp add: field_simps)
  finally have "round_even (x / u) = N" by (rule round_even_near)
  then show ?thesis by (simp add: fl64_pos [OF x] uu)
qed

lemma fl64_eval:
  assumes u: "u = 2 powr of_int k"
    and lo: "2 ^ 52 * u \<le> \<bar>x\<bar>" and hi: "\<bar>x\<bar> < 2 ^ 53 * u"
    and near: "\<bar>x - of_int N * u\<bar> < u / 2"
  shows "fl64 x = of_int N * u"
proof -
  have up: "0 < u" by (simp add: u)
  with lo have "0 < \<bar>x\<bar>"
    by (smt (verit) mult_pos_pos zero_less_numeral zero_less_power)
  then consider "0 < x" | "x < 0" by linarith
  then show ?thesis
  proof cases
    case 1
    with lo hi show ?thesis
      using u near by (intro fl64_nearest [where k = k]) simp_all
  next
    case 2
    have "- x - of_int (- N) * u = - (x - of_int N * u)" by simp
    then have "\<bar>- x - of_int (- N) * u\<bar> = \<bar>x - of_int N * u\<bar>"
      by (simp only: abs_minus_cancel)
    with 2 have "fl64 (- x) = of_int (- N) * u"
      using u lo hi near by (intro fl64_nearest [where k = k]) simp_all
    then show ?thesis by (simp add: fl64_minus)
  qed
qed

lemma fl64_eval_up:
  assumes "2 ^ 52 * 2 ^ n \<le> \<bar>x\<bar>" and "\<bar>x\<bar> < 2 ^ 53 * 2 ^ n"
    and "\<bar>x - of_int N * 2 ^ n\<bar> < 2 ^ n / 2"
  shows "fl64 x = of_int N * 2 ^ n"
proof -
  have "(2::real) ^ n = 2 powr of_int (int n)"
    by (simp add: powr_realpow)
  then show ?thesis using assms by (rule fl64_eval)
qed

lemma fl64_eval_down:
  assumes "2 ^ 52 / 2 ^ n \<le> \<bar>x\<bar>" and "\<bar>x\<bar> < 2 ^ 53 / 2 ^ n"
    and "\<bar>x - of_int N / 2 ^ n\<bar> < 1 / 2 ^ n / 2"
  shows "fl64 x = of_int N / 2 ^ n"
proof -
  define u :: real where "u = 1 / 2 ^ n"
  have p: "u = 2 powr of_int (- int n)"
    by (simp add: u_def powr_minus powr_realpow inverse_eq_divide)
  have a: "2 ^ 52 * u \<le> \<bar>x\<bar>" "\<bar>x\<bar> < 2 ^ 53 * u" "\<bar>x - of_int N * u\<bar> < u / 2"
    using assms by (simp_all add: u_def)
  from p a have "fl64 x = of_int N * u" by (rule fl64_eval)
  then show ?thesis by (simp add: u_def)
qed

lemma rounding_nonneg: "rounding rd \<Longrightarrow> 0 \<le> x \<Longrightarrow> 0 \<le> rd x"
  unfolding rounding_def by (metis)

lemma rounding_mono: "rounding rd \<Longrightarrow> x \<le> y \<Longrightarrow> rd x \<le> rd y"
  unfolding rounding_def by blast

lemma rounding_idem: "rounding rd \<Longrightarrow> rd (rd x) = rd x"
  unfolding rounding_def by blast

lemma rounding_zero: "rounding rd \<Longrightarrow> rd 0 = 0"
  unfolding rounding_def by blast

subsection \<open>Termination of the loop with rounding, and the exact model as an instance\<close>

lemma current_date_fl [simp]:
  "current_date (early_repay_fl rd s) = current_date s"
  "current_date (allowance_fl rd e s) = current_date s"
  "current_date (accrue_and_pay_fl rd e s) = current_date s"
  by (simp_all add: early_repay_fl_def allowance_fl_def accrue_and_pay_fl_def Let_def)

lemma advance_fl_Inr:
  assumes "advance_fl rd e s = Inr s'"
  shows "next_month (current_date s) = Inr (current_date s')"
    and "time_passed s' = toordinal (current_date s') - toordinal (start_date e)"
    and "month_count s' = month_count s + 1"
    and "history s' = history s @ [snapshot_fl rd e s']"
    and "principal s' = principal s" and "savings s' = savings s"
    and "total_interest_paid s' = total_interest_paid s"
    and "yearly_principal_snapshot s' = yearly_principal_snapshot s"
    and "early_repay_used s' = early_repay_used s"
    and "early_repay_limit s' = early_repay_limit s"
    and "actual_early_repay s' = actual_early_repay s"
    and "actual_payment s' = actual_payment s"
    and "interest_this_month s' = interest_this_month s"
    and "leftover s' = leftover s"
  using assms
  by (auto simp: advance_fl_def Let_def days_between_def snapshot_fl_def split: sum.splits)

lemma loop_body_fl_Inr:
  assumes "loop_body_fl rd e s = Inr s'"
  shows "valid_date (current_date s')"
    and "time_passed s' = toordinal (current_date s') - toordinal (start_date e)"
    and "valid_date (current_date s) \<Longrightarrow> toordinal (current_date s) < toordinal (current_date s')"
proof -
  note a = advance_fl_Inr(1,2) [OF assms [unfolded loop_body_fl_def]]
  from a(1) have n: "next_month (current_date s) = Inr (current_date s')" by simp
  from n show "valid_date (current_date s')" by (rule next_month_Inr)
  from a(2) show "time_passed s' = toordinal (current_date s') - toordinal (start_date e)" .
  show "toordinal (current_date s) < toordinal (current_date s')" if "valid_date (current_date s)"
    using that n by (rule next_month_toordinal)
qed

termination simulation_loop_fl
proof (relation "measure (\<lambda>(rd, e, s).
    if valid_date (current_date s)
    then nat (toordinal (start_date e) + 21901 - toordinal (current_date s))
    else nat (toordinal (start_date e) + 21901) + 1)")
  show "wf (measure (\<lambda>(rd :: real \<Rightarrow> real, e, s).
    if valid_date (current_date s)
    then nat (toordinal (start_date e) + 21901 - toordinal (current_date s))
    else nat (toordinal (start_date e) + 21901) + 1))"
    by simp
next
  fix rd :: "real \<Rightarrow> real" and e s s'
  assume body: "loop_body_fl rd e s = Inr s'" and nb: "\<not> 365 * 60 < time_passed s'"
  note f = loop_body_fl_Inr [OF body]
  from f(2) nb have le: "toordinal (current_date s') \<le> toordinal (start_date e) + 21900"
    by simp
  show "((rd, e, s'), (rd, e, s)) \<in> measure (\<lambda>(rd, e, s).
    if valid_date (current_date s)
    then nat (toordinal (start_date e) + 21901 - toordinal (current_date s))
    else nat (toordinal (start_date e) + 21901) + 1)"
  proof (cases "valid_date (current_date s)")
    case True
    with f(1) f(3) le show ?thesis by simp
  next
    case False
    with f(1) le toordinal_pos [OF f(1)] show ?thesis by simp
  qed
qed

declare simulation_loop_fl.simps [simp del]

text \<open>Without rounding the rounded model is the exact one.\<close>

lemma exact_month:
  "snapshot_fl (\<lambda>x. x) e s = snapshot e s"
  "accrue_and_pay_fl (\<lambda>x. x) e s = accrue_and_pay e s"
  "allowance_fl (\<lambda>x. x) e s = allowance e s"
  "early_repay_fl (\<lambda>x. x) s = early_repay s"
  by (simp_all add: snapshot_fl_def snapshot_def accrue_and_pay_fl_def accrue_and_pay_def
      allowance_fl_def allowance_def early_repay_fl_def early_repay_def)

lemma exact_loop_body: "loop_body_fl (\<lambda>x. x) e s = loop_body e s"
  by (simp add: loop_body_fl_def loop_body_def advance_fl_def advance_def exact_month Let_def
      split: sum.splits)

lemma exact_loop_cond: "loop_cond_fl (\<lambda>x. x) e s = loop_cond e s"
  by (simp add: loop_cond_fl_def loop_cond_def)

lemma exact_simulation_loop: "simulation_loop_fl (\<lambda>x. x) e s = simulation_loop e s"
proof (induction e s rule: simulation_loop.induct)
  case (1 e s)
  show ?case
  proof (cases "loop_cond e s")
    case False
    then show ?thesis
      by (simp add: simulation_loop.simps [of e s] simulation_loop_fl.simps [of _ e s]
          exact_loop_cond)
  next
    case True
    show ?thesis
    proof (cases "loop_body e s")
      case (Inl err)
      with True show ?thesis
        by (simp add: simulation_loop.simps [of e s] simulation_loop_fl.simps [of _ e s]
            exact_loop_cond exact_loop_body)
    next
      case (Inr s')
      with True "1.IH" [OF True Inr] show ?thesis
        by (simp add: simulation_loop.simps [of e s] simulation_loop_fl.simps [of _ e s]
            exact_loop_cond exact_loop_body)
    qed
  qed
qed

lemma exact_function:
  "minimum_mortgage_repay_time_with_tracking_fl (\<lambda>x. x) d start_saving amount payment percent n
     mortgage_interest_rate revenue savings_interest_rate projection =
   minimum_mortgage_repay_time_with_tracking d start_saving amount payment percent n
     mortgage_interest_rate revenue savings_interest_rate projection"
  by (simp add: minimum_mortgage_repay_time_with_tracking_fl_def
      minimum_mortgage_repay_time_with_tracking_def loop_env_fl_def loop_env_def
      initial_state_fl_def initial_state_def exact_month exact_simulation_loop
      cong: sum.case_cong)


subsection \<open>Rules for the loop with rounding\<close>

lemma simulation_loop_fl_exit:
  "\<not> loop_cond_fl rd e s \<Longrightarrow> simulation_loop_fl rd e s = Inr s"
  by (simp add: simulation_loop_fl.simps [of rd e s])

lemma simulation_loop_fl_break:
  "loop_cond_fl rd e s \<Longrightarrow> loop_body_fl rd e s = Inr s' \<Longrightarrow> 365 * 60 < time_passed s' \<Longrightarrow>
   simulation_loop_fl rd e s = Inr s'"
  by (simp add: simulation_loop_fl.simps [of rd e s])

lemma simulation_loop_fl_continue:
  "loop_cond_fl rd e s \<Longrightarrow> loop_body_fl rd e s = Inr s' \<Longrightarrow> \<not> 365 * 60 < time_passed s' \<Longrightarrow>
   simulation_loop_fl rd e s = simulation_loop_fl rd e s'"
  by (simp add: simulation_loop_fl.simps [of rd e s])

lemma simulation_loop_fl_invariant:
  assumes "simulation_loop_fl rd e s = Inr r" and "I s"
    and "\<And>s s'. I s \<Longrightarrow> loop_cond_fl rd e s \<Longrightarrow> loop_body_fl rd e s = Inr s' \<Longrightarrow> I s'"
  shows "I r"
  using assms
proof (induction rd e s rule: simulation_loop_fl.induct)
  case (1 rd e s)
  note run = "1.prems"(1) and init = "1.prems"(2) and step = "1.prems"(3)
  show ?case
  proof (cases "loop_cond_fl rd e s")
    case False
    with run have "r = s" by (simp add: simulation_loop_fl_exit)
    with init show ?thesis by simp
  next
    case True
    with run obtain s' where body: "loop_body_fl rd e s = Inr s'"
      by (auto simp: simulation_loop_fl.simps [of rd e s] split: sum.splits)
    have I': "I s'" using init True body by (rule step)
    show ?thesis
    proof (cases "365 * 60 < time_passed s'")
      case True
      with \<open>loop_cond_fl rd e s\<close> body run have "r = s'"
        by (simp add: simulation_loop_fl_break)
      with I' show ?thesis by simp
    next
      case False
      with \<open>loop_cond_fl rd e s\<close> body run have "simulation_loop_fl rd e s' = Inr r"
        by (simp add: simulation_loop_fl_continue)
      with "1.IH" [OF \<open>loop_cond_fl rd e s\<close> body False] I' step show ?thesis by blast
    qed
  qed
qed

lemma simulation_loop_fl_returns:
  assumes init: "I s"
    and step: "\<And>s s'. I s \<Longrightarrow> loop_cond_fl rd e s \<Longrightarrow> loop_body_fl rd e s = Inr s' \<Longrightarrow>
                 \<not> 365 * 60 < time_passed s' \<Longrightarrow> I s'"
    and body: "\<And>s. I s \<Longrightarrow> loop_cond_fl rd e s \<Longrightarrow> \<exists>s'. loop_body_fl rd e s = Inr s'"
  shows "\<exists>r. simulation_loop_fl rd e s = Inr r"
  using assms
proof (induction rd e s rule: simulation_loop_fl.induct)
  case (1 rd e s)
  note init = "1.prems"(1) and step = "1.prems"(2) and body = "1.prems"(3)
  show ?case
  proof (cases "loop_cond_fl rd e s")
    case False
    then show ?thesis by (simp add: simulation_loop_fl_exit)
  next
    case True
    with body [OF init] obtain s' where s': "loop_body_fl rd e s = Inr s'" by blast
    show ?thesis
    proof (cases "365 * 60 < time_passed s'")
      case True
      with \<open>loop_cond_fl rd e s\<close> s' show ?thesis by (simp add: simulation_loop_fl_break)
    next
      case False
      have "I s'" using init \<open>loop_cond_fl rd e s\<close> s' False by (rule step)
      with "1.IH" [OF \<open>loop_cond_fl rd e s\<close> s' False] step body
      obtain r where "simulation_loop_fl rd e s' = Inr r"
        by blast
      with \<open>loop_cond_fl rd e s\<close> s' False show ?thesis
        by (simp add: simulation_loop_fl_continue)
    qed
  qed
qed

subsection \<open>The rounded phases\<close>

lemma accrue_and_pay_fl_fields [simp]:
  "month_count (accrue_and_pay_fl rd e s) = month_count s"
  "history (accrue_and_pay_fl rd e s) = history s"
  "yearly_principal_snapshot (accrue_and_pay_fl rd e s) = yearly_principal_snapshot s"
  "early_repay_used (accrue_and_pay_fl rd e s) = early_repay_used s"
  by (simp_all add: accrue_and_pay_fl_def Let_def)

lemma allowance_fl_fields [simp]:
  "month_count (allowance_fl rd e s) = month_count s"
  "history (allowance_fl rd e s) = history s"
  "principal (allowance_fl rd e s) = principal s"
  "savings (allowance_fl rd e s) = savings s"
  "leftover (allowance_fl rd e s) = leftover s"
  "total_interest_paid (allowance_fl rd e s) = total_interest_paid s"
  "actual_payment (allowance_fl rd e s) = actual_payment s"
  "interest_this_month (allowance_fl rd e s) = interest_this_month s"
  by (simp_all add: allowance_fl_def Let_def)

lemma early_repay_fl_fields [simp]:
  "month_count (early_repay_fl rd s) = month_count s"
  "history (early_repay_fl rd s) = history s"
  "total_interest_paid (early_repay_fl rd s) = total_interest_paid s"
  "yearly_principal_snapshot (early_repay_fl rd s) = yearly_principal_snapshot s"
  "early_repay_limit (early_repay_fl rd s) = early_repay_limit s"
  "actual_payment (early_repay_fl rd s) = actual_payment s"
  "interest_this_month (early_repay_fl rd s) = interest_this_month s"
  by (simp_all add: early_repay_fl_def Let_def)

lemma loop_body_fl_fields:
  assumes "loop_body_fl rd e s = Inr s'"
  shows "next_month (current_date s) = Inr (current_date s')"
    and "month_count s' = month_count s + 1"
    and "history s' = history s @ [snapshot_fl rd e s']"
    and "principal s' = principal (early_repay_fl rd (allowance_fl rd e (accrue_and_pay_fl rd e s)))"
    and "savings s' = savings (early_repay_fl rd (allowance_fl rd e (accrue_and_pay_fl rd e s)))"
    and "total_interest_paid s' = total_interest_paid (accrue_and_pay_fl rd e s)"
    and "yearly_principal_snapshot s' =
           yearly_principal_snapshot (allowance_fl rd e (accrue_and_pay_fl rd e s))"
    and "early_repay_used s' =
           early_repay_used (early_repay_fl rd (allowance_fl rd e (accrue_and_pay_fl rd e s)))"
    and "early_repay_limit s' = early_repay_limit (allowance_fl rd e (accrue_and_pay_fl rd e s))"
    and "actual_early_repay s' =
           actual_early_repay (early_repay_fl rd (allowance_fl rd e (accrue_and_pay_fl rd e s)))"
  using advance_fl_Inr [OF assms [unfolded loop_body_fl_def]] by simp_all

lemma loop_body_fl_returns:
  assumes "next_month (current_date s) = Inr d'"
  shows "\<exists>s'. loop_body_fl rd e s = Inr s'"
  using assms by (simp add: loop_body_fl_def advance_fl_def Let_def)

lemma accrue_and_pay_fl_props:
  "interest_this_month (accrue_and_pay_fl rd e s) = rd (principal s * monthly_mortgage_rate e)"
  "total_interest_paid (accrue_and_pay_fl rd e s) =
     rd (total_interest_paid s + interest_this_month (accrue_and_pay_fl rd e s))"
  "actual_payment (accrue_and_pay_fl rd e s) =
     min (monthly_payment e) (rd (principal s + interest_this_month (accrue_and_pay_fl rd e s)))"
  "principal (accrue_and_pay_fl rd e s) =
     rd (rd (principal s + interest_this_month (accrue_and_pay_fl rd e s))
         - actual_payment (accrue_and_pay_fl rd e s))"
  "savings (accrue_and_pay_fl rd e s) = rd (savings s * rd (1 + monthly_savings_rate e))"
  "leftover (accrue_and_pay_fl rd e s) =
     rd (monthly_revenue e - actual_payment (accrue_and_pay_fl rd e s))"
  by (simp_all add: accrue_and_pay_fl_def Let_def)

lemma allowance_fl_props:
  "yearly_principal_snapshot (allowance_fl rd e s) =
     (if month (current_date s) = 1 \<and> day (current_date s) = 1 then principal s
      else yearly_principal_snapshot s)"
  "early_repay_used (allowance_fl rd e s) =
     (if month (current_date s) = 1 \<and> day (current_date s) = 1 then 0 else early_repay_used s)"
  "early_repay_limit (allowance_fl rd e s) =
     (if capped e s
      then rd (rd (yearly_principal_snapshot (allowance_fl rd e s) * early_repay_percent e)
               - early_repay_used (allowance_fl rd e s))
      else principal s)"
  by (auto simp: allowance_fl_def capped_def Let_def)

lemma early_repay_fl_props:
  "actual_early_repay (early_repay_fl rd s) =
     min (min (rd (leftover s + savings s)) (early_repay_limit s)) (principal s)"
  "principal (early_repay_fl rd s) = rd (principal s - actual_early_repay (early_repay_fl rd s))"
  "early_repay_used (early_repay_fl rd s) =
     rd (early_repay_used s + actual_early_repay (early_repay_fl rd s))"
  "savings (early_repay_fl rd s) =
     (if leftover s < actual_early_repay (early_repay_fl rd s)
      then rd (max 0 (rd (savings s - rd (actual_early_repay (early_repay_fl rd s) - leftover s)))
               + 0)
      else rd (savings s + rd (leftover s - actual_early_repay (early_repay_fl rd s))))"
  by (simp_all add: early_repay_fl_def Let_def)

lemma env_fl_fields [simp]:
  "mortgage_amount (loop_env_fl rd a p c m r sv pr nl st) = a"
  "monthly_payment (loop_env_fl rd a p c m r sv pr nl st) = p"
  "early_repay_percent (loop_env_fl rd a p c m r sv pr nl st) = c"
  "monthly_revenue (loop_env_fl rd a p c m r sv pr nl st) = r"
  "projection_years (loop_env_fl rd a p c m r sv pr nl st) = pr"
  "monthly_mortgage_rate (loop_env_fl rd a p c m r sv pr nl st) = rd (m / 12)"
  "monthly_savings_rate (loop_env_fl rd a p c m r sv pr nl st) = rd (sv / 12)"
  "start_no_limit_allowance_date (loop_env_fl rd a p c m r sv pr nl st) = nl"
  "start_date (loop_env_fl rd a p c m r sv pr nl st) = st"
  by (simp_all add: loop_env_fl_def)

lemma initial_state_fl_fields [simp]:
  "current_date (initial_state_fl rd e d ss) = d"
  "principal (initial_state_fl rd e d ss) = mortgage_amount e"
  "savings (initial_state_fl rd e d ss) = ss"
  "month_count (initial_state_fl rd e d ss) = 0"
  "total_interest_paid (initial_state_fl rd e d ss) = 0"
  "yearly_principal_snapshot (initial_state_fl rd e d ss) = mortgage_amount e"
  "early_repay_used (initial_state_fl rd e d ss) = 0"
  "history (initial_state_fl rd e d ss) = [snapshot_fl rd e (initial_state_fl rd e d ss)]"
  by (simp_all add: initial_state_fl_def Let_def snapshot_fl_def)

lemma simulate_fl_Inr:
  assumes "minimum_mortgage_repay_time_with_tracking_fl rd d start_saving amount payment percent n
             mortgage_interest_rate revenue savings_interest_rate projection = Inr (cnt, h, ti)"
  obtains no_limit r where
    "mk_date (year d + n) (month d) (day d) = Inr no_limit"
    "mk_date (year d) (month d) (day d) = Inr d"
    "simulation_loop_fl rd
       (loop_env_fl rd amount payment percent mortgage_interest_rate revenue
          savings_interest_rate projection no_limit d)
       (initial_state_fl rd
          (loop_env_fl rd amount payment percent mortgage_interest_rate revenue
             savings_interest_rate projection no_limit d) d start_saving) = Inr r"
    "cnt = month_count r" "h = history r" "ti = total_interest_paid r"
proof -
  from assms obtain no_limit start r where
    a: "mk_date (year d + n) (month d) (day d) = Inr no_limit"
    and b: "mk_date (year d) (month d) (day d) = Inr start"
    and c: "simulation_loop_fl rd
       (loop_env_fl rd amount payment percent mortgage_interest_rate revenue
          savings_interest_rate projection no_limit start)
       (initial_state_fl rd
          (loop_env_fl rd amount payment percent mortgage_interest_rate revenue
             savings_interest_rate projection no_limit start) d start_saving) = Inr r"
    and d: "cnt = month_count r" "h = history r" "ti = total_interest_paid r"
    unfolding minimum_mortgage_repay_time_with_tracking_fl_def
    by (auto simp: Let_def split: sum.splits)
  from b have "start = d" by (rule mk_date_same)
  with a b c d that show thesis by blast
qed

subsection \<open>Signs under rounding\<close>

lemma accrue_and_pay_fl_nonneg:
  assumes rd: "rounding rd" and e: "rates_ok e" and s: "0 \<le> principal s" "0 \<le> savings s"
  shows "0 \<le> interest_this_month (accrue_and_pay_fl rd e s)"
    and "0 \<le> principal (accrue_and_pay_fl rd e s)"
    and "0 \<le> savings (accrue_and_pay_fl rd e s)"
proof -
  from e s have "0 \<le> principal s * monthly_mortgage_rate e" by (simp add: rates_ok_def)
  with rd show i: "0 \<le> interest_this_month (accrue_and_pay_fl rd e s)"
    by (simp add: accrue_and_pay_fl_props rounding_nonneg)
  have "0 \<le> rd (principal s + interest_this_month (accrue_and_pay_fl rd e s))
              - actual_payment (accrue_and_pay_fl rd e s)"
    by (simp add: accrue_and_pay_fl_props(3))
  with rd show "0 \<le> principal (accrue_and_pay_fl rd e s)"
    by (simp add: accrue_and_pay_fl_props(4) rounding_nonneg)
  from e have "0 \<le> 1 + monthly_savings_rate e" by (simp add: rates_ok_def)
  with rd have "0 \<le> rd (1 + monthly_savings_rate e)" by (rule rounding_nonneg)
  with s have "0 \<le> savings s * rd (1 + monthly_savings_rate e)" by simp
  with rd show "0 \<le> savings (accrue_and_pay_fl rd e s)"
    by (simp add: accrue_and_pay_fl_props rounding_nonneg)
qed

lemma early_repay_fl_nonneg:
  assumes rd: "rounding rd" and s: "0 \<le> savings s"
  shows "0 \<le> principal (early_repay_fl rd s)" and "0 \<le> savings (early_repay_fl rd s)"
proof -
  have "0 \<le> principal s - actual_early_repay (early_repay_fl rd s)"
    by (simp add: early_repay_fl_props(1))
  with rd show "0 \<le> principal (early_repay_fl rd s)"
    by (simp add: early_repay_fl_props(2) rounding_nonneg)
  show "0 \<le> savings (early_repay_fl rd s)"
  proof (cases "leftover s < actual_early_repay (early_repay_fl rd s)")
    case True
    have "0 \<le> max 0 (rd (savings s - rd (actual_early_repay (early_repay_fl rd s) - leftover s))) + 0"
      by simp
    with rd True show ?thesis
      by (simp only: early_repay_fl_props(4) if_True rounding_nonneg)
  next
    case False
    then have "0 \<le> leftover s - actual_early_repay (early_repay_fl rd s)" by simp
    with rd have "0 \<le> rd (leftover s - actual_early_repay (early_repay_fl rd s))"
      by (rule rounding_nonneg)
    with s have "0 \<le> savings s + rd (leftover s - actual_early_repay (early_repay_fl rd s))"
      by simp
    with rd False show ?thesis
      by (simp only: early_repay_fl_props(4) if_False rounding_nonneg)
  qed
qed

lemma fl_ok_step:
  assumes rd: "rounding rd" and e: "rates_ok e" and s: "fl_ok rd s"
    and body: "loop_body_fl rd e s = Inr s'"
  shows "fl_ok rd s'"
proof -
  let ?a = "accrue_and_pay_fl rd e s"
  let ?b = "allowance_fl rd e ?a"
  note f = loop_body_fl_fields [OF body]
  from s have s0: "0 \<le> principal s" "0 \<le> savings s" by (simp_all add: fl_ok_def)
  note a = accrue_and_pay_fl_nonneg [OF rd e s0]
  from a(3) have "0 \<le> savings ?b" by simp
  with rd have "0 \<le> principal (early_repay_fl rd ?b)" "0 \<le> savings (early_repay_fl rd ?b)"
    by (rule early_repay_fl_nonneg)+
  moreover from rd have "rd (total_interest_paid ?a) = total_interest_paid ?a"
    by (simp add: accrue_and_pay_fl_props(2) rounding_idem)
  ultimately show ?thesis by (simp add: fl_ok_def f)
qed

lemma fl_ok_interest:
  assumes rd: "rounding rd" and e: "rates_ok e" and s: "fl_ok rd s"
  shows "total_interest_paid s \<le> total_interest_paid (accrue_and_pay_fl rd e s)"
proof -
  from s have s0: "0 \<le> principal s" "0 \<le> savings s"
    and t: "rd (total_interest_paid s) = total_interest_paid s" by (simp_all add: fl_ok_def)
  from accrue_and_pay_fl_nonneg(1) [OF rd e s0]
  have "total_interest_paid s
          \<le> total_interest_paid s + interest_this_month (accrue_and_pay_fl rd e s)" by simp
  with rd have "rd (total_interest_paid s)
      \<le> rd (total_interest_paid s + interest_this_month (accrue_and_pay_fl rd e s))"
    by (rule rounding_mono)
  with t show ?thesis by (simp add: accrue_and_pay_fl_props(2))
qed

lemma rates_ok_env:
  assumes "rounding rd" "0 \<le> mortgage_interest_rate" "0 \<le> savings_interest_rate"
  shows "rates_ok (loop_env_fl rd amount payment percent mortgage_interest_rate revenue
                     savings_interest_rate projection no_limit start)"
  using assms by (simp add: rates_ok_def rounding_nonneg)

lemma fl_ok_initial:
  assumes "rounding rd" "0 \<le> mortgage_amount e" "0 \<le> start_saving"
  shows "fl_ok rd (initial_state_fl rd e d start_saving)"
  using assms by (simp add: fl_ok_def rounding_zero)

lemma loop_head_fl_run:
  "loop_head_fl rd e s0 s \<Longrightarrow> simulation_loop_fl rd e s0 = simulation_loop_fl rd e s"
  by (induction rule: loop_head_fl.induct) (simp_all add: simulation_loop_fl_continue)



subsection \<open>Returning, with rounding\<close>

lemma months_inv_step_fl:
  assumes "months_inv e s" and "loop_body_fl rd e s = Inr s'"
  shows "months_inv e s'"
proof -
  note f = loop_body_fl_fields(1,2) [OF assms(2)]
  note n = next_month_Inr [OF f(1)]
  show ?thesis
  proof (cases "month (current_date s) = 12")
    case True
    with n(3) have "year (current_date s') = year (current_date s) + 1"
      "month (current_date s') = 1" by simp_all
    with assms(1) True n(2) f(2) show ?thesis by (simp add: months_inv_def)
  next
    case False
    with n(4) have "year (current_date s') = year (current_date s)"
      "month (current_date s') = month (current_date s) + 1" by simp_all
    with assms(1) False n(2) f(2) show ?thesis by (simp add: months_inv_def)
  qed
qed

lemma simulation_loop_fl_completes:
  assumes inv: "months_inv e s" and cnt: "month_count s \<le> 719"
    and day: "day (start_date e) \<le> 28" and yr: "year (start_date e) + 60 \<le> 9999"
  shows "\<exists>r. simulation_loop_fl rd e s = Inr r"
proof (rule simulation_loop_fl_returns [where I = "\<lambda>s. months_inv e s \<and> month_count s \<le> 719"])
  from inv cnt show "months_inv e s \<and> month_count s \<le> 719" by simp
next
  fix s s'
  assume I: "months_inv e s \<and> month_count s \<le> 719" and body: "loop_body_fl rd e s = Inr s'"
    and nb: "\<not> 365 * 60 < time_passed s'"
  from I body have inv': "months_inv e s'" by (blast intro: months_inv_step_fl)
  have "month_count s' \<noteq> 720"
  proof
    assume "month_count s' = 720"
    with inv' have "21900 < toordinal (current_date s') - toordinal (start_date e)"
      by (rule elapsed_after_720_months)
    with loop_body_fl_Inr(2) [OF body] nb show False by simp
  qed
  with I inv' loop_body_fl_fields(2) [OF body] show "months_inv e s' \<and> month_count s' \<le> 719"
    by simp
next
  fix s
  assume I: "months_inv e s \<and> month_count s \<le> 719"
  with day yr obtain d' where "next_month (current_date s) = Inr d'"
    using next_month_returns [of e s] by blast
  then show "\<exists>s'. loop_body_fl rd e s = Inr s'" by (rule loop_body_fl_returns)
qed

lemma simulation_loop_fl_history:
  assumes "simulation_loop_fl rd e s = Inr r"
  shows "\<exists>t. history r = history s @ t"
proof -
  let ?I = "\<lambda>u. \<exists>t. history u = history s @ t"
  show "?I r"
    using assms
  proof (rule simulation_loop_fl_invariant)
    show "?I s" by simp
  next
    fix u u'
    assume "?I u" and "loop_body_fl rd e u = Inr u'"
    then show "?I u'"
      by (auto simp: loop_body_fl_fields(3))
  qed
qed

lemma simulation_loop_fl_first_month:
  assumes "simulation_loop_fl rd e s = Inr r" and "loop_cond_fl rd e s"
  obtains s' where "loop_body_fl rd e s = Inr s'" and "\<exists>t. history r = history s' @ t"
proof -
  from assms obtain s' where body: "loop_body_fl rd e s = Inr s'"
    by (auto simp: simulation_loop_fl.simps [of rd e s] split: sum.splits)
  show thesis
  proof (cases "365 * 60 < time_passed s'")
    case True
    with assms body have "r = s'" by (simp add: simulation_loop_fl_break)
    with body that show thesis by simp
  next
    case False
    with assms body have "simulation_loop_fl rd e s' = Inr r"
      by (simp add: simulation_loop_fl_continue)
    from simulation_loop_fl_history [OF this] body that show thesis by blast
  qed
qed

text \<open>The run with rounding from a start date with a day up to 28: it returns, and when
  the loop is entered the history begins with the record of the start and the record
  after the first month.\<close>

lemma simulate_fl_first_month:
  assumes d: "check_date_fields (year d) (month d) (day d)" and day: "day d \<le> 28"
    and n: "0 \<le> n" "year d + n \<le> 9999" and yr: "year d + 60 \<le> 9999"
    and e: "e = loop_env_fl rd amount payment percent mortgage_interest_rate revenue
                  savings_interest_rate projection
                  \<lparr>year = year d + n, month = month d, day = day d\<rparr> d"
    and c: "loop_cond_fl rd e (initial_state_fl rd e d start_saving)"
  obtains cnt h ti s' t where
    "minimum_mortgage_repay_time_with_tracking_fl rd d start_saving amount payment percent n
       mortgage_interest_rate revenue savings_interest_rate projection = Inr (cnt, h, ti)"
    "loop_body_fl rd e (initial_state_fl rd e d start_saving) = Inr s'"
    "h = snapshot_fl rd e (initial_state_fl rd e d start_saving) # snapshot_fl rd e s' # t"
proof -
  from d have f: "1 \<le> year d" "1 \<le> month d" "month d \<le> 12" "1 \<le> day d"
    by (simp_all add: check_date_fields_def MINYEAR_def)
  from d have dd: "mk_date (year d) (month d) (day d) = Inr d"
    by (simp add: mk_date_def)
  from f n day have nl: "mk_date (year d + n) (month d) (day d) =
      Inr \<lparr>year = year d + n, month = month d, day = day d\<rparr>"
    by (intro mk_date_ok) simp_all
  let ?s = "initial_state_fl rd e d start_saving"
  from d have "valid_date d" by (simp add: valid_date_def)
  then have "months_inv e ?s"
    by (simp add: months_inv_def valid_date_def check_date_fields_def e)
  then have "\<exists>r. simulation_loop_fl rd e ?s = Inr r"
    using day yr by (intro simulation_loop_fl_completes) (simp_all add: e)
  then obtain r where run: "simulation_loop_fl rd e ?s = Inr r" ..
  from run c obtain s' t where body: "loop_body_fl rd e ?s = Inr s'"
    and h: "history r = history s' @ t"
    by (auto elim: simulation_loop_fl_first_month)
  from loop_body_fl_fields(3) [OF body] h
  have "history r = snapshot_fl rd e ?s # snapshot_fl rd e s' # t" by simp
  moreover from dd nl run have
    "minimum_mortgage_repay_time_with_tracking_fl rd d start_saving amount payment percent n
       mortgage_interest_rate revenue savings_interest_rate projection
     = Inr (month_count r, history r, total_interest_paid r)"
    by (simp add: minimum_mortgage_repay_time_with_tracking_fl_def Let_def e [symmetric])
  ultimately show thesis using body that by blast
qed

subsection \<open>Roundings and months evaluated\<close>

lemma fl64_epsilon: "fl64 (1 / 100000) = 5902958103587057 / 590295810358705651712"
  using fl64_eval_down [where n = 69 and x = "1 / 100000" and N = "5902958103587057"] by simp


lemma fl64_drift:
  "fl64 (3602879701896397 / 864691128455135232) = 4803839602528529 / 1152921504606846976"
  "fl64 (15011998757901653125 / 36028797018963968) = 7330077518506667 / 17592186044416"
  "fl64 (7330077518506667 / 17592186044416) = 7330077518506667 / 17592186044416"
  "fl64 (1766548681960106667 / 17592186044416) = 6900580788906667 / 68719476736"
  "fl64 (6900580788906667 / 68719476736) = 6900580788906667 / 68719476736"
  "fl64 (28633115306667 / 68719476736) = 28633115306667 / 68719476736"
  "fl64 (85 / 17592186044416) = 85 / 17592186044416"
  using fl64_eval_down [where n = 60 and x = "3602879701896397 / 864691128455135232" and N = "4803839602528529"]
    fl64_eval_down [where n = 44 and x = "15011998757901653125 / 36028797018963968" and N = "7330077518506667"]
    fl64_eval_down [where n = 44 and x = "7330077518506667 / 17592186044416" and N = "7330077518506667"]
    fl64_eval_down [where n = 36 and x = "1766548681960106667 / 17592186044416" and N = "6900580788906667"]
    fl64_eval_down [where n = 36 and x = "6900580788906667 / 68719476736" and N = "6900580788906667"]
    fl64_eval_down [where n = 44 and x = "28633115306667 / 68719476736" and N = "7330077518506752"]
    fl64_eval_down [where n = 90 and x = "85 / 17592186044416" and N = "5981343255101440"]
  by simp_all


lemma drift_month:
  "monthly_mortgage_rate drift_env = 4803839602528529 / 1152921504606846976"
  "total_interest_paid (accrue_and_pay_fl fl64 drift_env drift_state)
     = 7330077518506667 / 17592186044416"
  "principal (early_repay_fl fl64 (allowance_fl fl64 drift_env
       (accrue_and_pay_fl fl64 drift_env drift_state))) = 6900580788906667 / 68719476736"
proof -
  let ?a = "accrue_and_pay_fl fl64 drift_env drift_state"
  let ?b = "allowance_fl fl64 drift_env ?a"
  show r: "monthly_mortgage_rate drift_env = 4803839602528529 / 1152921504606846976"
    by (simp add: drift_env_def fl64_drift)
  have m: "monthly_savings_rate drift_env = 0" "monthly_payment drift_env = 0"
    "monthly_revenue drift_env = 0"
    by (simp_all add: drift_env_def)
  have s: "principal drift_state = 100000" "savings drift_state = 0"
    "total_interest_paid drift_state = 0"
    "current_date drift_state = \<lparr>year = 2025, month = 8, day = 1\<rparr>"
    by (simp_all add: drift_state_def drift_env_def)
  have i: "interest_this_month ?a = 7330077518506667 / 17592186044416"
    by (simp add: accrue_and_pay_fl_props r s fl64_drift)
  show ti: "total_interest_paid ?a = 7330077518506667 / 17592186044416"
    by (simp add: accrue_and_pay_fl_props(2) i s fl64_drift)
  have ap: "actual_payment ?a = 0"
    by (simp add: accrue_and_pay_fl_props(3) i s m fl64_drift)
  have p: "principal ?a = 6900580788906667 / 68719476736"
    by (simp add: accrue_and_pay_fl_props(4) i ap s fl64_drift)
  have l: "leftover ?a = 0" "savings ?a = 0"
    by (simp_all add: accrue_and_pay_fl_props(5,6) ap s m)
  have "\<not> capped drift_env ?a"
    by (simp add: capped_def s drift_env_def date_less_def)
  then have lim: "early_repay_limit ?b = 6900580788906667 / 68719476736"
    by (simp add: allowance_fl_props p)
  have ae: "actual_early_repay (early_repay_fl fl64 ?b) = 0"
    by (simp add: early_repay_fl_props(1) l lim p)
  show "principal (early_repay_fl fl64 ?b) = 6900580788906667 / 68719476736"
    by (simp add: early_repay_fl_props(2) ae p fl64_drift)
qed



section \<open>The claims\<close>

subsection \<open>C1: at most 720 months\<close>

text \<open>
  Claim C1. The loop terminates for every input (\<open>simulation_loop\<close> is a total function,
  by the termination proof above). Whenever the function returns, with or without the
  preconditions, it has executed at most 720 monthly steps: after 720 months more than
  \<open>365 * 60\<close> days have elapsed and the \<^verbatim>\<open>break\<close> of line 127 leaves the loop,
  whatever the principal and the projection; the history has one record more than the
  months counted. And the function does return, within that bound, for every start date
  whose day is at most 28 when the years of the threshold date and of the sixtieth
  anniversary are at most 9999.
\<close>

theorem at_most_720_months:
  "(minimum_mortgage_repay_time_with_tracking d start_saving amount payment percent n
      mortgage_interest_rate revenue savings_interest_rate projection = Inr (cnt, h, ti) \<longrightarrow>
    0 \<le> cnt \<and> cnt \<le> 720 \<and> int (length h) = cnt + 1) \<and>
   (check_date_fields (year d) (month d) (day d) \<longrightarrow> day d \<le> 28 \<longrightarrow>
    0 \<le> n \<longrightarrow> year d + n \<le> 9999 \<longrightarrow> year d + 60 \<le> 9999 \<longrightarrow>
    (\<exists>c hh t. minimum_mortgage_repay_time_with_tracking d start_saving amount payment percent n
        mortgage_interest_rate revenue savings_interest_rate projection = Inr (c, hh, t) \<and>
      0 \<le> c \<and> c \<le> 720))"
proof -
  have bound: "0 \<le> c \<and> c \<le> 720 \<and> int (length hh) = c + 1"
    if "minimum_mortgage_repay_time_with_tracking d start_saving amount payment percent n
          mortgage_interest_rate revenue savings_interest_rate projection = Inr (c, hh, t)"
    for c hh t
  proof -
    from that obtain no_limit fin where
      dd: "mk_date (year d) (month d) (day d) = Inr d"
      and loop: "simulation_loop
         (loop_env amount payment percent mortgage_interest_rate revenue savings_interest_rate
            projection no_limit d)
         (initial_state
            (loop_env amount payment percent mortgage_interest_rate revenue savings_interest_rate
               projection no_limit d) d start_saving) = Inr fin"
      and res: "c = month_count fin" "hh = history fin"
      by (rule simulate_Inr)
    let ?e = "loop_env amount payment percent mortgage_interest_rate revenue savings_interest_rate
            projection no_limit d"
    let ?I = "\<lambda>s. months_inv ?e s \<and> month_count s \<le> 719 \<and>
                  int (length (history s)) = month_count s + 1"
    let ?Q = "\<lambda>s. 0 \<le> month_count s \<and> month_count s \<le> 720 \<and>
                  int (length (history s)) = month_count s + 1"
    from dd have v: "valid_date d" by (auto dest: mk_date_Inr)
    have "?Q fin"
      using loop
    proof (rule simulation_loop_rule [where I = ?I])
      show "?I (initial_state ?e d start_saving)"
        using months_inv_initial [OF v, of ?e] by simp
    next
      fix s s'
      assume I: "?I s" and body: "loop_body ?e s = Inr s'"
        and nb: "\<not> 365 * 60 < time_passed s'"
      from I body have inv: "months_inv ?e s'" by (blast intro: months_inv_step)
      note f = loop_body_fields(2,3) [OF body]
      have "month_count s' \<noteq> 720"
      proof
        assume "month_count s' = 720"
        with inv have "21900 < toordinal (current_date s') - toordinal (start_date ?e)"
          by (rule elapsed_after_720_months)
        with loop_body_Inr(2) [OF body] nb show False by simp
      qed
      with I inv f show "?I s'" by simp
    next
      fix s s'
      assume I: "?I s" and body: "loop_body ?e s = Inr s'"
      note f = loop_body_fields(2,3) [OF body]
      from I f show "?Q s'" by (simp add: months_inv_def)
    next
      fix s
      assume "?I s"
      then show "?Q s" by (simp add: months_inv_def)
    qed
    then show ?thesis by (simp add: res)
  qed
  have returns: "\<exists>c hh t. minimum_mortgage_repay_time_with_tracking d start_saving amount
      payment percent n mortgage_interest_rate revenue savings_interest_rate projection
        = Inr (c, hh, t)"
    if "check_date_fields (year d) (month d) (day d)" "day d \<le> 28" "0 \<le> n"
      "year d + n \<le> 9999" "year d + 60 \<le> 9999"
    using that by (rule simulate_returns)
  from bound returns show ?thesis by blast
qed

theorem at_most_720_months_witness:
  "minimum_mortgage_repay_time_with_tracking \<lparr>year = 2025, month = 8, day = 1\<rparr>
     5000 10000 500 1 0 0 10500 0 0 =
   Inr (1,
     [\<lparr>date = \<lparr>year = 2025, month = 8, day = 1\<rparr>, principal_remaining = 10000,
       entry_savings = 5000, interest_paid = 0, total_paid = 0\<rparr>,
      \<lparr>date = \<lparr>year = 2025, month = 9, day = 1\<rparr>, principal_remaining = 0,
       entry_savings = 5500, interest_paid = 0, total_paid = 10000\<rparr>], 0) \<and>
   (0::int) \<le> 1 \<and> (1::int) \<le> 720 \<and>
   int (length
     [\<lparr>date = \<lparr>year = 2025, month = 8, day = 1\<rparr>, principal_remaining = 10000,
       entry_savings = 5000, interest_paid = 0, total_paid = 0\<rparr>,
      \<lparr>date = \<lparr>year = 2025, month = 9, day = 1\<rparr>, principal_remaining = 0,
       entry_savings = 5500, interest_paid = 0, total_paid = 10000\<rparr>]) = 1 + 1 \<and>
   check_date_fields 2025 8 1 \<and>
   (\<exists>c hh t. minimum_mortgage_repay_time_with_tracking \<lparr>year = 2025, month = 8, day = 1\<rparr>
        5000 125000 850 (1 / 10) 4 (492 / 10000) 3000 (3 / 100) 25 = Inr (c, hh, t) \<and>
      0 \<le> c \<and> c \<le> 720)"
proof -
  have v: "check_date_fields 2025 8 1"
    by (simp add: check_date_fields_def days_in_month_def is_leap_def DAYS_IN_MONTH_def
        MINYEAR_def MAXYEAR_def)
  note first = at_most_720_months [THEN conjunct1, rule_format, OF one_month_run]
  have second: "\<exists>c hh t. minimum_mortgage_repay_time_with_tracking
        \<lparr>year = 2025, month = 8, day = 1\<rparr>
        5000 125000 850 (1 / 10) 4 (492 / 10000) 3000 (3 / 100) 25 = Inr (c, hh, t) \<and>
      0 \<le> c \<and> c \<le> 720"
    by (rule at_most_720_months [THEN conjunct2, rule_format]) (simp_all add: v)
  from first second v one_month_run show ?thesis by blast
qed

subsection \<open>C2: conservation in every history record\<close>

lemma snapshot_conserved: "conserved (mortgage_amount e) (snapshot e s)"
  by (simp add: conserved_def snapshot_def)

text \<open>
  Claim C2. For every input, every record of the returned history, the record of the
  start included, has \<open>total_paid\<close> equal to the mortgage amount minus its own
  \<open>principal_remaining\<close> plus its own \<open>interest_paid\<close>.
\<close>

theorem history_conservation:
  assumes "minimum_mortgage_repay_time_with_tracking d start_saving amount payment percent n
             mortgage_interest_rate revenue savings_interest_rate projection = Inr (cnt, h, ti)"
    and "r \<in> set h"
  shows "total_paid r = amount - principal_remaining r + interest_paid r"
proof -
  from assms(1) obtain no_limit fin where
    run: "simulation_loop
       (loop_env amount payment percent mortgage_interest_rate revenue savings_interest_rate
          projection no_limit d)
       (initial_state
          (loop_env amount payment percent mortgage_interest_rate revenue savings_interest_rate
             projection no_limit d) d start_saving) = Inr fin"
    and h: "h = history fin"
    by (rule simulate_Inr)
  let ?e = "loop_env amount payment percent mortgage_interest_rate revenue savings_interest_rate
          projection no_limit d"
  let ?I = "\<lambda>s. \<forall>r \<in> set (history s). conserved amount r"
  have "?I fin"
    using run
  proof (rule simulation_loop_invariant)
    show "?I (initial_state ?e d start_saving)"
      using snapshot_conserved [of ?e] by simp
  next
    fix s s'
    assume "?I s" and "loop_body ?e s = Inr s'"
    then show "?I s'"
      using snapshot_conserved [of ?e s'] by (simp add: loop_body_fields(3))
  qed
  with h assms(2) show ?thesis by (simp add: conserved_def)
qed

theorem history_conservation_witness:
  "minimum_mortgage_repay_time_with_tracking \<lparr>year = 2025, month = 8, day = 1\<rparr>
     5000 10000 500 1 0 0 10500 0 0 =
   Inr (1,
     [\<lparr>date = \<lparr>year = 2025, month = 8, day = 1\<rparr>, principal_remaining = 10000,
       entry_savings = 5000, interest_paid = 0, total_paid = 0\<rparr>,
      \<lparr>date = \<lparr>year = 2025, month = 9, day = 1\<rparr>, principal_remaining = 0,
       entry_savings = 5500, interest_paid = 0, total_paid = 10000\<rparr>], 0) \<and>
   total_paid \<lparr>date = \<lparr>year = 2025, month = 9, day = 1\<rparr>, principal_remaining = 0,
       entry_savings = 5500, interest_paid = 0, total_paid = 10000\<rparr> =
   10000 - principal_remaining \<lparr>date = \<lparr>year = 2025, month = 9, day = 1\<rparr>,
       principal_remaining = 0, entry_savings = 5500, interest_paid = 0, total_paid = 10000\<rparr>
     + interest_paid \<lparr>date = \<lparr>year = 2025, month = 9, day = 1\<rparr>,
       principal_remaining = 0, entry_savings = 5500, interest_paid = 0, total_paid = 10000\<rparr>"
proof (rule conjI)
  show "minimum_mortgage_repay_time_with_tracking \<lparr>year = 2025, month = 8, day = 1\<rparr>
     5000 10000 500 1 0 0 10500 0 0 =
   Inr (1,
     [\<lparr>date = \<lparr>year = 2025, month = 8, day = 1\<rparr>, principal_remaining = 10000,
       entry_savings = 5000, interest_paid = 0, total_paid = 0\<rparr>,
      \<lparr>date = \<lparr>year = 2025, month = 9, day = 1\<rparr>, principal_remaining = 0,
       entry_savings = 5500, interest_paid = 0, total_paid = 10000\<rparr>], 0)"
    by (rule one_month_run)
  show "total_paid \<lparr>date = \<lparr>year = 2025, month = 9, day = 1\<rparr>, principal_remaining = 0,
       entry_savings = 5500, interest_paid = 0, total_paid = 10000\<rparr> =
   10000 - principal_remaining \<lparr>date = \<lparr>year = 2025, month = 9, day = 1\<rparr>,
       principal_remaining = 0, entry_savings = 5500, interest_paid = 0, total_paid = 10000\<rparr>
     + interest_paid \<lparr>date = \<lparr>year = 2025, month = 9, day = 1\<rparr>,
       principal_remaining = 0, entry_savings = 5500, interest_paid = 0, total_paid = 10000\<rparr>"
    by (rule history_conservation [OF one_month_run]) simp
qed

subsection \<open>C3: no negative balance in the history\<close>

lemma snapshot_nonneg: "balances_ok e s \<Longrightarrow> entry_nonneg (snapshot e s)"
  by (simp add: balances_ok_def entry_nonneg_def snapshot_def)

text \<open>
  Claim C3. For every input with non-negative amounts and rates (and a non-negative cap
  fraction), \<open>principal_remaining\<close> and the savings balance are non-negative in every
  record of the returned history.
\<close>

theorem history_nonnegative:
  assumes run: "minimum_mortgage_repay_time_with_tracking d start_saving amount payment percent n
             mortgage_interest_rate revenue savings_interest_rate projection = Inr (cnt, h, ti)"
    and pre: "0 \<le> start_saving" "0 \<le> amount" "0 \<le> payment" "0 \<le> percent"
      "0 \<le> mortgage_interest_rate" "0 \<le> revenue" "0 \<le> savings_interest_rate"
    and r: "r \<in> set h"
  shows "0 \<le> principal_remaining r \<and> 0 \<le> entry_savings r"
proof -
  from run obtain no_limit fin where
    loop: "simulation_loop
       (loop_env amount payment percent mortgage_interest_rate revenue savings_interest_rate
          projection no_limit d)
       (initial_state
          (loop_env amount payment percent mortgage_interest_rate revenue savings_interest_rate
             projection no_limit d) d start_saving) = Inr fin"
    and h: "h = history fin"
    by (rule simulate_Inr)
  let ?e = "loop_env amount payment percent mortgage_interest_rate revenue savings_interest_rate
          projection no_limit d"
  let ?I = "\<lambda>s. balances_ok ?e s \<and> (\<forall>r \<in> set (history s). entry_nonneg r)"
  have e: "env_ok ?e" using pre by (simp add: balances_ok_env)
  have "?I fin"
    using loop
  proof (rule simulation_loop_invariant)
    have "balances_ok ?e (initial_state ?e d start_saving)"
      using pre by (simp add: balances_ok_initial)
    then show "?I (initial_state ?e d start_saving)"
      using snapshot_nonneg [of ?e "initial_state ?e d start_saving"] by simp
  next
    fix s s'
    assume I: "?I s" and body: "loop_body ?e s = Inr s'"
    from e I body have "balances_ok ?e s'" by (blast intro: balances_ok_step)
    with I show "?I s'"
      using snapshot_nonneg [of ?e s'] by (simp add: loop_body_fields(3) [OF body])
  qed
  with h r show ?thesis by (simp add: entry_nonneg_def)
qed

theorem history_nonnegative_witness:
  "0 \<le> principal_remaining \<lparr>date = \<lparr>year = 2025, month = 9, day = 1\<rparr>,
       principal_remaining = 0, entry_savings = 5500, interest_paid = 0, total_paid = 10000\<rparr> \<and>
   0 \<le> entry_savings \<lparr>date = \<lparr>year = 2025, month = 9, day = 1\<rparr>,
       principal_remaining = 0, entry_savings = 5500, interest_paid = 0, total_paid = 10000\<rparr>"
  by (rule history_nonnegative [OF one_month_run]) simp_all

subsection \<open>C4: the cap of the allowance window\<close>

text \<open>
  Claim C4. In a month whose date before the increment is before the threshold date,
  whatever the state the month starts from: the early repayment of the month is at most
  the remaining cap, the year's snapshot times the cap fraction minus the amount used so
  far (both as they stand after the reset test of line 90), and after the month the
  running total is at most the snapshot times the cap fraction.
\<close>

theorem cap_respected:
  assumes "date_less (current_date s) (start_no_limit_allowance_date e)"
    and "loop_body e s = Inr s'"
  shows "actual_early_repay s' \<le>
           yearly_principal_snapshot (allowance e (accrue_and_pay e s)) * early_repay_percent e
           - early_repay_used (allowance e (accrue_and_pay e s)) \<and>
         early_repay_used s' = early_repay_used (allowance e (accrue_and_pay e s))
           + actual_early_repay s' \<and>
         yearly_principal_snapshot s' = yearly_principal_snapshot (allowance e (accrue_and_pay e s)) \<and>
         early_repay_used s' \<le> yearly_principal_snapshot s' * early_repay_percent e"
proof -
  let ?a = "accrue_and_pay e s"
  let ?b = "allowance e ?a"
  note f = loop_body_fields [OF assms(2)]
  from assms(1) have "capped e ?a" by (simp add: capped_def)
  then have lim: "early_repay_limit ?b =
      yearly_principal_snapshot ?b * early_repay_percent e - early_repay_used ?b"
    by (simp add: allowance_props)
  have "actual_early_repay (early_repay ?b) \<le> early_repay_limit ?b"
    by (simp add: early_repay_props)
  with lim show ?thesis
    by (simp add: f early_repay_props)
qed

theorem cap_respected_witness:
  "date_less (current_date january_state) (start_no_limit_allowance_date january_env) \<and>
   (\<exists>s'. loop_body january_env january_state = Inr s' \<and>
      actual_early_repay s' \<le>
           yearly_principal_snapshot (allowance january_env (accrue_and_pay january_env january_state))
             * early_repay_percent january_env
           - early_repay_used (allowance january_env (accrue_and_pay january_env january_state)) \<and>
      early_repay_used s' \<le> yearly_principal_snapshot s' * early_repay_percent january_env)"
proof -
  from january_month obtain s' where b: "loop_body january_env january_state = Inr s'"
    by blast
  from cap_respected [OF january_capped b] b january_capped show ?thesis
    by blast
qed

subsection \<open>C5: interest paid and total paid\<close>


lemma nondecreasing_snoc:
  assumes "h \<noteq> []" and "nondecreasing h"
    and "interest_paid (last h) \<le> interest_paid x" and "total_paid (last h) \<le> total_paid x"
  shows "nondecreasing (h @ [x])"
  unfolding nondecreasing_def
proof (intro allI impI)
  fix i
  assume i: "Suc i < length (h @ [x])"
  show "interest_paid ((h @ [x]) ! i) \<le> interest_paid ((h @ [x]) ! Suc i) \<and>
        total_paid ((h @ [x]) ! i) \<le> total_paid ((h @ [x]) ! Suc i)"
  proof (cases "Suc i < length h")
    case True
    with assms(2) show ?thesis by (simp add: nondecreasing_def nth_append)
  next
    case False
    with i have eq: "Suc i = length h" by simp
    then have "i = length h - 1" by simp
    with eq have "(h @ [x]) ! i = last h"
      using assms(1) by (simp add: nth_append last_conv_nth)
    moreover from eq have "(h @ [x]) ! Suc i = x" by simp
    ultimately show ?thesis using assms(3,4) by simp
  qed
qed

text \<open>What one month adds to the total paid: the mandatory payment and the early repayment.\<close>

lemma loop_body_total_paid:
  assumes "loop_body e s = Inr s'"
  shows "total_paid (snapshot e s') - total_paid (snapshot e s) =
           actual_payment (accrue_and_pay e s)
           + actual_early_repay (early_repay (allowance e (accrue_and_pay e s)))"
    and "interest_paid (snapshot e s') - interest_paid (snapshot e s) =
           principal s * monthly_mortgage_rate e"
  by (simp_all add: snapshot_def loop_body_fields [OF assms] early_repay_props
      accrue_and_pay_props)

lemma payments_nonneg:
  assumes e: "env_ok e" and s: "balances_ok e s"
  shows "0 \<le> actual_payment (accrue_and_pay e s)
           + actual_early_repay (early_repay (allowance e (accrue_and_pay e s)))"
proof -
  let ?a = "accrue_and_pay e s"
  let ?b = "allowance e ?a"
  from s have s0: "0 \<le> principal s" "0 \<le> savings s" by (simp_all add: balances_ok_def)
  note a = accrue_and_pay_nonneg [OF e s0]
  from s have "capped e ?a \<longrightarrow>
      early_repay_used ?a \<le> yearly_principal_snapshot ?a * early_repay_percent e"
    by (simp add: balances_ok_def capped_def)
  with e a(1) have lim: "0 \<le> early_repay_limit ?b"
    by (intro allowance_limit_nonneg) (simp_all add: env_ok_def)
  have "leftover ?a + actual_payment ?a = monthly_revenue e"
    by (simp add: accrue_and_pay_props)
  moreover from e have "0 \<le> monthly_revenue e" by (simp add: env_ok_def)
  ultimately have "0 \<le> actual_payment ?a + (leftover ?b + savings ?b)"
    using a(2) by simp
  with lim a(1,3) show ?thesis
    by (simp add: early_repay_props min_def)
qed

text \<open>Without rounding, interest paid and total paid do not fall from a record of the
  history to the next (\<open>loop_body_total_paid\<close> gives the two increments,
  \<open>payments_nonneg\<close> their sign).\<close>

lemma exact_history_nondecreasing:
  assumes run: "minimum_mortgage_repay_time_with_tracking d start_saving amount payment percent n
             mortgage_interest_rate revenue savings_interest_rate projection = Inr (cnt, h, ti)"
    and pre: "0 \<le> start_saving" "0 \<le> amount" "0 \<le> payment" "0 \<le> percent"
      "0 \<le> mortgage_interest_rate" "0 \<le> revenue" "0 \<le> savings_interest_rate"
    and i: "Suc i < length h"
  shows "interest_paid (h ! i) \<le> interest_paid (h ! Suc i) \<and>
         total_paid (h ! i) \<le> total_paid (h ! Suc i)"
proof -
  from run obtain no_limit fin where
    loop: "simulation_loop
       (loop_env amount payment percent mortgage_interest_rate revenue savings_interest_rate
          projection no_limit d)
       (initial_state
          (loop_env amount payment percent mortgage_interest_rate revenue savings_interest_rate
             projection no_limit d) d start_saving) = Inr fin"
    and h: "h = history fin"
    by (rule simulate_Inr)
  let ?e = "loop_env amount payment percent mortgage_interest_rate revenue savings_interest_rate
          projection no_limit d"
  let ?I = "\<lambda>s. balances_ok ?e s \<and> history s \<noteq> [] \<and> last (history s) = snapshot ?e s \<and>
                nondecreasing (history s)"
  have e: "env_ok ?e" using pre by (simp add: balances_ok_env)
  have "?I fin"
    using loop
  proof (rule simulation_loop_invariant)
    have "balances_ok ?e (initial_state ?e d start_saving)"
      using pre by (simp add: balances_ok_initial)
    then show "?I (initial_state ?e d start_saving)"
      by (simp add: nondecreasing_def)
  next
    fix s s'
    assume I: "?I s" and body: "loop_body ?e s = Inr s'"
    from e I body have b': "balances_ok ?e s'" by (blast intro: balances_ok_step)
    from I have "0 \<le> principal s" by (simp add: balances_ok_def)
    with e have "0 \<le> principal s * monthly_mortgage_rate ?e"
      by (simp add: env_ok_def)
    with loop_body_total_paid(2) [OF body]
    have i: "interest_paid (last (history s)) \<le> interest_paid (snapshot ?e s')"
      using I by simp
    from e I have "0 \<le> actual_payment (accrue_and_pay ?e s)
           + actual_early_repay (early_repay (allowance ?e (accrue_and_pay ?e s)))"
      by (blast intro: payments_nonneg)
    with loop_body_total_paid(1) [OF body]
    have t: "total_paid (last (history s)) \<le> total_paid (snapshot ?e s')"
      using I by simp
    from I i t have "nondecreasing (history s @ [snapshot ?e s'])"
      by (blast intro: nondecreasing_snoc)
    with b' show "?I s'"
      by (simp add: loop_body_fields(3) [OF body])
  qed
  with h i show ?thesis by (simp add: nondecreasing_def)
qed

lemma interest_nondecreasing_snoc:
  assumes "h \<noteq> []" and "interest_nondecreasing h"
    and "interest_paid (last h) \<le> interest_paid x"
  shows "interest_nondecreasing (h @ [x])"
  unfolding interest_nondecreasing_def
proof (intro allI impI)
  fix i
  assume i: "Suc i < length (h @ [x])"
  show "interest_paid ((h @ [x]) ! i) \<le> interest_paid ((h @ [x]) ! Suc i)"
  proof (cases "Suc i < length h")
    case True
    with assms(2) show ?thesis by (simp add: interest_nondecreasing_def nth_append)
  next
    case False
    with i have eq: "Suc i = length h" by simp
    then have "i = length h - 1" by simp
    with eq have "(h @ [x]) ! i = last h"
      using assms(1) by (simp add: nth_append last_conv_nth)
    moreover from eq have "(h @ [x]) ! Suc i = x" by simp
    ultimately show ?thesis using assms(3) by simp
  qed
qed

text \<open>
  The first month of 100000 owed at the rate 0.05 with nothing paid, on doubles.
\<close>

lemma drift_first_month:
  "\<exists>cnt h ti.
     minimum_mortgage_repay_time_with_tracking_fl fl64 \<lparr>year = 2025, month = 8, day = 1\<rparr>
       0 100000 0 0 0 (3602879701896397 / 72057594037927936) 0 0 0 = Inr (cnt, h, ti) \<and>
     Suc 0 < length h \<and>
     total_paid (h ! 0) = 0 \<and> total_paid (h ! Suc 0) = - (85 / 17592186044416)"
proof -
  let ?d = "\<lparr>year = 2025, month = 8, day = 1\<rparr>"
  have v: "check_date_fields (year ?d) (month ?d) (day ?d)"
    by (simp add: check_date_fields_def days_in_month_def is_leap_def DAYS_IN_MONTH_def
        MINYEAR_def MAXYEAR_def)
  have e: "drift_env = loop_env_fl fl64 100000 0 0 (3602879701896397 / 72057594037927936) 0 0 0
      \<lparr>year = year ?d + 0, month = month ?d, day = day ?d\<rparr> ?d"
    by (simp add: drift_env_def)
  have c: "loop_cond_fl fl64 drift_env (initial_state_fl fl64 drift_env ?d 0)"
    by (simp add: loop_cond_fl_def drift_env_def fl64_epsilon)
  obtain cnt h ti s' t where
    run: "minimum_mortgage_repay_time_with_tracking_fl fl64 ?d 0 100000 0 0 0
       (3602879701896397 / 72057594037927936) 0 0 0 = Inr (cnt, h, ti)"
    and body: "loop_body_fl fl64 drift_env (initial_state_fl fl64 drift_env ?d 0) = Inr s'"
    and h: "h = snapshot_fl fl64 drift_env (initial_state_fl fl64 drift_env ?d 0)
              # snapshot_fl fl64 drift_env s' # t"
    by (rule simulate_fl_first_month [where n = 0, OF v _ _ _ _ e c]) simp_all
  from body have body': "loop_body_fl fl64 drift_env drift_state = Inr s'"
    by (simp add: drift_state_def)
  note f = loop_body_fl_fields [OF body']
  have m: "mortgage_amount drift_env = 100000" by (simp add: drift_env_def)
  have "total_paid (h ! 0) = 0"
    by (simp add: h snapshot_fl_def m)
  moreover have "total_paid (h ! Suc 0) = - (85 / 17592186044416)"
    by (simp add: h snapshot_fl_def m f(4,6) drift_month fl64_minus fl64_drift)
  moreover from h have "Suc 0 < length h" by simp
  ultimately show ?thesis using run by blast
qed

text \<open>
  Claim C5, as stated, fails for \<open>total_paid\<close> under binary64: with 100000 owed at the
  rate 0.05 and nothing paid, the first month's interest is added to the principal and
  to the interest paid with two different roundings, and the total paid of line 123
  goes from 0 to \<open>- 85 / 2 ^ 44\<close>, about \<open>- 4.83e-12\<close>.
\<close>

theorem total_paid_falls:
  "\<exists>cnt h ti.
     minimum_mortgage_repay_time_with_tracking_fl fl64 \<lparr>year = 2025, month = 8, day = 1\<rparr>
       0 100000 0 0 0 (3602879701896397 / 72057594037927936) 0 0 0 = Inr (cnt, h, ti) \<and>
     Suc 0 < length h \<and>
     total_paid (h ! 0) = 0 \<and> total_paid (h ! Suc 0) = - (85 / 17592186044416)"
  by (rule drift_first_month)

text \<open>
  Claim C5, amended. Under any rounding that is monotone, keeps 0 and keeps its own
  results (binary64 is one, and so is no rounding), for inputs with non-negative amounts
  and rates, \<open>interest_paid\<close> does not decrease from a record of the returned history to
  the next. \<open>total_paid\<close> does not decrease either when nothing is rounded, where each
  month adds the mandatory payment and the early repayment to it.
\<close>

theorem history_interest_nondecreasing:
  assumes rd: "rounding rd"
    and run: "minimum_mortgage_repay_time_with_tracking_fl rd d start_saving amount payment
                percent n mortgage_interest_rate revenue savings_interest_rate projection
              = Inr (cnt, h, ti)"
    and pre: "0 \<le> start_saving" "0 \<le> amount" "0 \<le> payment" "0 \<le> percent"
      "0 \<le> mortgage_interest_rate" "0 \<le> revenue" "0 \<le> savings_interest_rate"
    and i: "Suc i < length h"
  shows "interest_paid (h ! i) \<le> interest_paid (h ! Suc i) \<and>
         (rd = (\<lambda>x. x) \<longrightarrow> total_paid (h ! i) \<le> total_paid (h ! Suc i))"
proof
  from run obtain no_limit fin where
    loop: "simulation_loop_fl rd
       (loop_env_fl rd amount payment percent mortgage_interest_rate revenue
          savings_interest_rate projection no_limit d)
       (initial_state_fl rd
          (loop_env_fl rd amount payment percent mortgage_interest_rate revenue
             savings_interest_rate projection no_limit d) d start_saving) = Inr fin"
    and h: "h = history fin"
    by (rule simulate_fl_Inr)
  let ?e = "loop_env_fl rd amount payment percent mortgage_interest_rate revenue
          savings_interest_rate projection no_limit d"
  let ?I = "\<lambda>s. fl_ok rd s \<and> history s \<noteq> [] \<and>
                interest_paid (last (history s)) = total_interest_paid s \<and>
                interest_nondecreasing (history s)"
  have e: "rates_ok ?e" using rd pre by (simp add: rates_ok_env)
  have "?I fin"
    using loop
  proof (rule simulation_loop_fl_invariant)
    have "fl_ok rd (initial_state_fl rd ?e d start_saving)"
      using rd pre by (simp add: fl_ok_initial)
    then show "?I (initial_state_fl rd ?e d start_saving)"
      by (simp add: interest_nondecreasing_def snapshot_fl_def)
  next
    fix s s'
    assume I: "?I s" and body: "loop_body_fl rd ?e s = Inr s'"
    note f = loop_body_fl_fields [OF body]
    from rd e I body have ok': "fl_ok rd s'" by (blast intro: fl_ok_step)
    from rd e I have "total_interest_paid s \<le> total_interest_paid (accrue_and_pay_fl rd ?e s)"
      by (blast intro: fl_ok_interest)
    with I f(6) have "interest_paid (last (history s)) \<le> interest_paid (snapshot_fl rd ?e s')"
      by (simp add: snapshot_fl_def)
    with I have "interest_nondecreasing (history s @ [snapshot_fl rd ?e s'])"
      by (blast intro: interest_nondecreasing_snoc)
    with ok' show "?I s'"
      by (simp add: f(3) snapshot_fl_def)
  qed
  with h i show "interest_paid (h ! i) \<le> interest_paid (h ! Suc i)"
    by (simp add: interest_nondecreasing_def)
  show "rd = (\<lambda>x. x) \<longrightarrow> total_paid (h ! i) \<le> total_paid (h ! Suc i)"
  proof
    assume "rd = (\<lambda>x. x)"
    with run have "minimum_mortgage_repay_time_with_tracking d start_saving amount payment
        percent n mortgage_interest_rate revenue savings_interest_rate projection
        = Inr (cnt, h, ti)"
      by (simp add: exact_function)
    from exact_history_nondecreasing [OF this pre i]
    show "total_paid (h ! i) \<le> total_paid (h ! Suc i)" by simp
  qed
qed

theorem history_interest_nondecreasing_witness:
  "rounding fl64 \<and>
   (\<exists>cnt h ti.
      minimum_mortgage_repay_time_with_tracking_fl fl64 \<lparr>year = 2025, month = 8, day = 1\<rparr>
        0 100000 0 0 0 (3602879701896397 / 72057594037927936) 0 0 0 = Inr (cnt, h, ti) \<and>
      Suc 0 < length h \<and> interest_paid (h ! 0) \<le> interest_paid (h ! Suc 0)) \<and>
   minimum_mortgage_repay_time_with_tracking_fl (\<lambda>x. x) \<lparr>year = 2025, month = 8, day = 1\<rparr>
     5000 10000 500 1 0 0 10500 0 0 =
   Inr (1,
     [\<lparr>date = \<lparr>year = 2025, month = 8, day = 1\<rparr>, principal_remaining = 10000,
       entry_savings = 5000, interest_paid = 0, total_paid = 0\<rparr>,
      \<lparr>date = \<lparr>year = 2025, month = 9, day = 1\<rparr>, principal_remaining = 0,
       entry_savings = 5500, interest_paid = 0, total_paid = 10000\<rparr>], 0) \<and>
   total_paid
     ([\<lparr>date = \<lparr>year = 2025, month = 8, day = 1\<rparr>, principal_remaining = 10000,
       entry_savings = 5000, interest_paid = 0, total_paid = 0\<rparr>,
      \<lparr>date = \<lparr>year = 2025, month = 9, day = 1\<rparr>, principal_remaining = 0,
       entry_savings = 5500, interest_paid = 0, total_paid = 10000\<rparr>] ! 0)
   \<le> total_paid
     ([\<lparr>date = \<lparr>year = 2025, month = 8, day = 1\<rparr>, principal_remaining = 10000,
       entry_savings = 5000, interest_paid = 0, total_paid = 0\<rparr>,
      \<lparr>date = \<lparr>year = 2025, month = 9, day = 1\<rparr>, principal_remaining = 0,
       entry_savings = 5500, interest_paid = 0, total_paid = 10000\<rparr>] ! Suc 0)"
proof -
  from drift_first_month obtain cnt h ti where
    run: "minimum_mortgage_repay_time_with_tracking_fl fl64 \<lparr>year = 2025, month = 8, day = 1\<rparr>
       0 100000 0 0 0 (3602879701896397 / 72057594037927936) 0 0 0 = Inr (cnt, h, ti)"
    and i: "Suc 0 < length h" by blast
  have "interest_paid (h ! 0) \<le> interest_paid (h ! Suc 0)"
    using history_interest_nondecreasing [OF rounding_fl64 run _ _ _ _ _ _ _ i] by simp
  with run i have a: "\<exists>cnt h ti.
      minimum_mortgage_repay_time_with_tracking_fl fl64 \<lparr>year = 2025, month = 8, day = 1\<rparr>
        0 100000 0 0 0 (3602879701896397 / 72057594037927936) 0 0 0 = Inr (cnt, h, ti) \<and>
      Suc 0 < length h \<and> interest_paid (h ! 0) \<le> interest_paid (h ! Suc 0)"
    by blast
  let ?h = "[\<lparr>date = \<lparr>year = 2025, month = 8, day = 1\<rparr>, principal_remaining = 10000,
       entry_savings = 5000, interest_paid = 0, total_paid = 0\<rparr>,
      \<lparr>date = \<lparr>year = 2025, month = 9, day = 1\<rparr>, principal_remaining = 0,
       entry_savings = 5500, interest_paid = 0, total_paid = 10000\<rparr>]"
  have run': "minimum_mortgage_repay_time_with_tracking_fl (\<lambda>x. x)
      \<lparr>year = 2025, month = 8, day = 1\<rparr> 5000 10000 500 1 0 0 10500 0 0 = Inr (1, ?h, 0)"
    by (simp only: exact_function one_month_run)
  have "total_paid (?h ! 0) \<le> total_paid (?h ! Suc 0)"
    using history_interest_nondecreasing [OF rounding_id run', of 0] by simp
  with a run' rounding_fl64 show ?thesis by blast
qed

subsection \<open>C6: the annual reset\<close>

text \<open>
  Claim C6. In every iteration, whatever its state: when the date before the increment is
  a 1 January, the snapshot becomes the principal after interest and payment of this very
  month, the amount used restarts from 0 (so after the month it is this month's early
  repayment), and in the capped window the limit of this month is that new snapshot times
  the cap fraction. On any other date the snapshot is kept and the early repayment adds to
  the amount used; the limit comes from the old values.
\<close>

theorem annual_reset:
  assumes "loop_body e s = Inr s'"
  shows "if month (current_date s) = 1 \<and> day (current_date s) = 1
         then yearly_principal_snapshot s' = principal (accrue_and_pay e s) \<and>
              early_repay_used s' = actual_early_repay s' \<and>
              (date_less (current_date s) (start_no_limit_allowance_date e) \<longrightarrow>
                 early_repay_limit s' = principal (accrue_and_pay e s) * early_repay_percent e)
         else yearly_principal_snapshot s' = yearly_principal_snapshot s \<and>
              early_repay_used s' = early_repay_used s + actual_early_repay s' \<and>
              (date_less (current_date s) (start_no_limit_allowance_date e) \<longrightarrow>
                 early_repay_limit s' =
                   yearly_principal_snapshot s * early_repay_percent e - early_repay_used s)"
  by (simp add: loop_body_fields [OF assms] early_repay_props allowance_props capped_def)

theorem annual_reset_witness:
  "\<exists>s'. loop_body january_env january_state = Inr s' \<and>
     month (current_date january_state) = 1 \<and> day (current_date january_state) = 1 \<and>
     yearly_principal_snapshot s' = 900 \<and> early_repay_used s' = actual_early_repay s' \<and>
     early_repay_limit s' = 900 * (1 / 10)"
proof -
  from january_month obtain s' where b: "loop_body january_env january_state = Inr s'"
    by blast
  have c: "month (current_date january_state) = 1 \<and> day (current_date january_state) = 1"
    by (simp add: january_state_def)
  have p: "principal (accrue_and_pay january_env january_state) = 900"
    "early_repay_percent january_env = 1 / 10"
    by (simp_all add: january_env_def january_state_def accrue_and_pay_props)
  from annual_reset [OF b] c january_capped p b show ?thesis
    by auto
qed

subsection \<open>C7: the month after the allowance window\<close>

text \<open>
  Claim C7. First, for any state: in a month whose date before the increment is not before
  the threshold date, the limit of the early repayment is the whole principal left after
  interest and payment, and when leftover plus savings cover that principal the month ends
  with principal 0. Second, the scenario: cap fraction 1, no allowance years, 10000 owed,
  payment 500, revenue 10500, no mortgage interest (any start date, non-negative savings
  and savings rate, any projection): whenever the function returns, at least one month was
  simulated, the record after the first month has principal 0, and the savings of that
  record are the savings with their interest plus the 500 left over, so nothing was drawn
  from savings. Third, the function does return in the scenario for every start date whose
  day is at most 28 and whose year is at most 9939.
\<close>

theorem unlimited_phase:
  "(\<not> date_less (current_date s) (start_no_limit_allowance_date e) \<longrightarrow>
      loop_body e s = Inr s' \<longrightarrow>
      early_repay_limit s' = principal (accrue_and_pay e s) \<and>
      (principal (accrue_and_pay e s)
         \<le> leftover (accrue_and_pay e s) + savings (accrue_and_pay e s) \<longrightarrow>
       principal s' = 0)) \<and>
   (0 \<le> start_saving \<longrightarrow> 0 \<le> savings_interest_rate \<longrightarrow>
      minimum_mortgage_repay_time_with_tracking d start_saving 10000 500 1 0 0 10500
        savings_interest_rate projection = Inr (cnt, h, ti) \<longrightarrow>
      1 \<le> cnt \<and> 2 \<le> length h \<and>
      principal_remaining (h ! 0) = 10000 \<and> principal_remaining (h ! 1) = 0 \<and>
      entry_savings (h ! 1) = start_saving * (1 + savings_interest_rate / 12) + 500) \<and>
   (check_date_fields (year d) (month d) (day d) \<longrightarrow> day d \<le> 28 \<longrightarrow> year d + 60 \<le> 9999 \<longrightarrow>
      (\<exists>cnt h ti. minimum_mortgage_repay_time_with_tracking d start_saving 10000 500 1 0 0 10500
         savings_interest_rate projection = Inr (cnt, h, ti)))"
proof (intro conjI impI)
  assume "check_date_fields (year d) (month d) (day d)" and "day d \<le> 28"
    and "year d + 60 \<le> 9999"
  then show "\<exists>cnt h ti. minimum_mortgage_repay_time_with_tracking d start_saving 10000 500 1 0 0
      10500 savings_interest_rate projection = Inr (cnt, h, ti)"
    by (intro simulate_returns) simp_all
next
  assume u: "\<not> date_less (current_date s) (start_no_limit_allowance_date e)"
    and body: "loop_body e s = Inr s'"
  note f = loop_body_fields [OF body]
  from u show "early_repay_limit s' = principal (accrue_and_pay e s)"
    by (simp add: f allowance_props capped_def)
  assume "principal (accrue_and_pay e s)
            \<le> leftover (accrue_and_pay e s) + savings (accrue_and_pay e s)"
  with u show "principal s' = 0"
    by (simp add: f early_repay_props allowance_props capped_def)
next
  assume pre: "0 \<le> start_saving" "0 \<le> savings_interest_rate"
    and run: "minimum_mortgage_repay_time_with_tracking d start_saving 10000 500 1 0 0 10500
        savings_interest_rate projection = Inr (cnt, h, ti)"
  from run obtain no_limit fin where
    nl: "mk_date (year d + 0) (month d) (day d) = Inr no_limit"
    and dd: "mk_date (year d) (month d) (day d) = Inr d"
    and loop: "simulation_loop
       (loop_env 10000 500 1 0 10500 savings_interest_rate projection no_limit d)
       (initial_state
          (loop_env 10000 500 1 0 10500 savings_interest_rate projection no_limit d)
          d start_saving) = Inr fin"
    and res: "cnt = month_count fin" "h = history fin"
    by (rule simulate_Inr)
  from nl dd have [simp]: "no_limit = d" by simp
  let ?e = "loop_env 10000 500 1 0 10500 savings_interest_rate projection d d"
  let ?s = "initial_state ?e d start_saving"
  have c: "loop_cond ?e ?s" by (simp add: loop_cond_def)
  from loop c obtain s' where body: "loop_body ?e ?s = Inr s'"
    and hist: "\<exists>t. history fin = history s' @ t" and cnt: "month_count s' \<le> month_count fin"
    by (auto elim: simulation_loop_first_month)
  note f = loop_body_fields [OF body]
  have unl: "\<not> capped ?e (accrue_and_pay ?e ?s)" by (simp add: capped_def date_less_def)
  from pre have sv: "0 \<le> start_saving * (1 + savings_interest_rate / 12)" by simp
  have a: "principal (accrue_and_pay ?e ?s) = 9500" "leftover (accrue_and_pay ?e ?s) = 10000"
    "savings (accrue_and_pay ?e ?s) = start_saving * (1 + savings_interest_rate / 12)"
    by (simp_all add: accrue_and_pay_props)
  from unl a sv have early:
    "actual_early_repay (early_repay (allowance ?e (accrue_and_pay ?e ?s))) = 9500"
    by (simp add: early_repay_props allowance_props)
  with a have p: "principal s' = 0"
    and sav': "savings s' = start_saving * (1 + savings_interest_rate / 12) + 500"
    by (simp_all add: f early_repay_props early_repay_savings)
  from f(3) have hs: "history s' = [snapshot ?e ?s, snapshot ?e s']" by simp
  from hist obtain t where t: "history fin = snapshot ?e ?s # snapshot ?e s' # t"
    unfolding hs by auto
  from cnt f(2) show "1 \<le> cnt" by (simp add: res)
  from t show "2 \<le> length h" by (simp add: res)
  from t show "principal_remaining (h ! 0) = 10000"
    by (simp add: res snapshot_def)
  from t p show "principal_remaining (h ! 1) = 0"
    by (simp add: res snapshot_def)
  from t sav' show "entry_savings (h ! 1) = start_saving * (1 + savings_interest_rate / 12) + 500"
    by (simp add: res snapshot_def)
qed

theorem unlimited_phase_witness:
  "(\<exists>s'. loop_body payoff_env payoff_state = Inr s' \<and>
      \<not> date_less (current_date payoff_state) (start_no_limit_allowance_date payoff_env) \<and>
      early_repay_limit s' = 9500 \<and> principal s' = 0) \<and>
   minimum_mortgage_repay_time_with_tracking \<lparr>year = 2025, month = 8, day = 1\<rparr>
     5000 10000 500 1 0 0 10500 0 0 =
   Inr (1,
     [\<lparr>date = \<lparr>year = 2025, month = 8, day = 1\<rparr>, principal_remaining = 10000,
       entry_savings = 5000, interest_paid = 0, total_paid = 0\<rparr>,
      \<lparr>date = \<lparr>year = 2025, month = 9, day = 1\<rparr>, principal_remaining = 0,
       entry_savings = 5500, interest_paid = 0, total_paid = 10000\<rparr>], 0) \<and>
   principal_remaining
     ([\<lparr>date = \<lparr>year = 2025, month = 8, day = 1\<rparr>, principal_remaining = 10000,
       entry_savings = 5000, interest_paid = 0, total_paid = 0\<rparr>,
      \<lparr>date = \<lparr>year = 2025, month = 9, day = 1\<rparr>, principal_remaining = 0,
       entry_savings = 5500, interest_paid = 0, total_paid = 10000\<rparr>] ! 1) = 0 \<and>
   entry_savings
     ([\<lparr>date = \<lparr>year = 2025, month = 8, day = 1\<rparr>, principal_remaining = 10000,
       entry_savings = 5000, interest_paid = 0, total_paid = 0\<rparr>,
      \<lparr>date = \<lparr>year = 2025, month = 9, day = 1\<rparr>, principal_remaining = 0,
       entry_savings = 5500, interest_paid = 0, total_paid = 10000\<rparr>] ! 1)
     = 5000 * (1 + 0 / 12) + 500"
proof -
  from payoff_month obtain s' where body: "loop_body payoff_env payoff_state = Inr s'"
    by blast
  note first = unlimited_phase [THEN conjunct1, rule_format, OF payoff_values(1) body]
  from first have "early_repay_limit s' = 9500" "principal s' = 0"
    by (simp_all add: payoff_values)
  with body have a: "\<exists>s'. loop_body payoff_env payoff_state = Inr s' \<and>
      \<not> date_less (current_date payoff_state) (start_no_limit_allowance_date payoff_env) \<and>
      early_repay_limit s' = 9500 \<and> principal s' = 0"
    using payoff_values(1) by blast
  note second = unlimited_phase [THEN conjunct2, THEN conjunct1, rule_format, OF _ _ one_month_run]
  from second have b: "principal_remaining
     ([\<lparr>date = \<lparr>year = 2025, month = 8, day = 1\<rparr>, principal_remaining = 10000,
       entry_savings = 5000, interest_paid = 0, total_paid = 0\<rparr>,
      \<lparr>date = \<lparr>year = 2025, month = 9, day = 1\<rparr>, principal_remaining = 0,
       entry_savings = 5500, interest_paid = 0, total_paid = 10000\<rparr>] ! 1) = 0"
    "entry_savings
     ([\<lparr>date = \<lparr>year = 2025, month = 8, day = 1\<rparr>, principal_remaining = 10000,
       entry_savings = 5000, interest_paid = 0, total_paid = 0\<rparr>,
      \<lparr>date = \<lparr>year = 2025, month = 9, day = 1\<rparr>, principal_remaining = 0,
       entry_savings = 5500, interest_paid = 0, total_paid = 10000\<rparr>] ! 1)
     = 5000 * (1 + 0 / 12) + 500"
    by simp_all
  from a b one_month_run show ?thesis by blast
qed

subsection \<open>C8: the scenario without early repayment\<close>

lemma scenario1_month:
  assumes e: "e = loop_env 120000 1000 0 0 1000 0 0
                    \<lparr>year = year d + 100, month = month d, day = 1\<rparr> d"
    and d: "day d = 1" "year d + 100 \<le> 9999"
    and sv: "0 \<le> start_saving"
    and inv: "scenario1_inv e start_saving k s" and k: "k < 120"
  shows "loop_cond e s \<and>
         (\<exists>s'. loop_body e s = Inr s' \<and> \<not> 365 * 60 < time_passed s' \<and>
                scenario1_inv e start_saving (Suc k) s')"
proof -
  from inv have mi: "months_inv e s" and mc: "month_count s = int k"
    and p: "principal s = 120000 - 1000 * real k" and s: "savings s = start_saving"
    and u: "early_repay_used s = 0" and ti: "total_interest_paid s = 0"
    and hist: "map principal_remaining (history s) = map (\<lambda>i. 120000 - 1000 * real i) [0..<Suc k]"
    by (simp_all add: scenario1_inv_def)
  from k have rk: "real k \<le> 119" by simp
  with p have p1000: "1000 \<le> principal s" by simp
  then have cond: "loop_cond e s" by (simp add: loop_cond_def)
  have sd: "start_date e = d" "day (start_date e) \<le> 28" "year (start_date e) + 60 \<le> 9999"
    using d by (simp_all add: e)
  from mc k have "month_count s \<le> 719" by simp
  with mi sd obtain d' where "next_month (current_date s) = Inr d'"
    using next_month_returns [of e s] by blast
  then obtain s' where body: "loop_body e s = Inr s'"
    using loop_body_returns by blast
  note f = loop_body_fields [OF body]
  from mi body have mi': "months_inv e s'" by (rule months_inv_step)
  from f(2) mc have mc': "month_count s' = int (Suc k)" by simp
  note tp = loop_body_Inr(2) [OF body]
  from mi' mc' k have "toordinal (current_date s') - toordinal (start_date e) \<le> 21900"
    by (intro elapsed_within_10_years) simp_all
  with tp have nb: "\<not> 365 * 60 < time_passed s'" by simp
  let ?a = "accrue_and_pay e s"
  let ?b = "allowance e ?a"
  have a: "principal ?a = principal s - 1000" "savings ?a = start_saving" "leftover ?a = 0"
    "total_interest_paid ?a = 0"
    using p1000 s ti by (simp_all add: accrue_and_pay_props e)
  from months_inv_years(2) [OF mi] mc k sd(1)
  have "year (current_date s) < year d + 100" by simp
  then have cap: "capped e ?a" by (simp add: capped_def date_less_def e)
  have pc: "early_repay_percent e = 0" by (simp add: e)
  from cap u have lim: "early_repay_limit ?b = 0"
    by (simp add: allowance_props pc)
  from a p1000 sv lim have early: "actual_early_repay (early_repay ?b) = 0"
    by (simp add: early_repay_props)
  from early a have fields: "principal s' = principal s - 1000" "savings s' = start_saving"
    "total_interest_paid s' = 0"
    by (simp_all add: f early_repay_props early_repay_savings)
  from early u have u': "early_repay_used s' = 0"
    by (simp add: f early_repay_props allowance_props)
  from fields p have p': "principal s' = 120000 - 1000 * real (Suc k)" by simp
  from hist p' have hist': "map principal_remaining (history s') =
      map (\<lambda>i. 120000 - 1000 * real i) [0..<Suc (Suc k)]"
    by (simp add: f(3) snapshot_def)
  from mi' mc' tp p' fields u' hist' have "scenario1_inv e start_saving (Suc k) s'"
    by (simp add: scenario1_inv_def)
  with cond body nb show ?thesis by blast
qed

lemma scenario1_loop:
  assumes e: "e = loop_env 120000 1000 0 0 1000 0 0
                    \<lparr>year = year d + 100, month = month d, day = 1\<rparr> d"
    and d: "day d = 1" "year d + 100 \<le> 9999"
    and sv: "0 \<le> start_saving"
  shows "scenario1_inv e start_saving k s \<Longrightarrow> k + j = 120 \<Longrightarrow>
         \<exists>r. simulation_loop e s = Inr r \<and> scenario1_inv e start_saving 120 r"
proof (induction j arbitrary: k s)
  case 0
  then have k: "k = 120" by simp
  with "0.prems"(1) have inv: "scenario1_inv e start_saving 120 s" by simp
  then have p: "principal s = 0" and mi: "months_inv e s" and mc: "month_count s = 120"
    and tp: "time_passed s = toordinal (current_date s) - toordinal (start_date e)"
    by (simp_all add: scenario1_inv_def)
  have "0 \<le> time_passed s"
  proof -
    let ?y = "year (start_date e)" and ?m = "month (start_date e)"
    from mi mc have m: "1 \<le> ?m" "?m \<le> 12" "1 \<le> month (current_date s)"
      "month (current_date s) \<le> 12"
      and eq: "12 * year (current_date s) + month (current_date s) = 12 * ?y + ?m + 120"
      and dd: "day (current_date s) = day (start_date e)"
      by (simp_all add: months_inv_def valid_date_def check_date_fields_def)
    from m eq have y: "year (current_date s) = ?y + 10" by linarith
    with eq have mm: "month (current_date s) = ?m" by simp
    have "days_before_year ?y + 365 * 10 + 10 div 4 - 1 \<le> days_before_year (?y + 10)"
      by (rule days_before_year_add) simp_all
    moreover have "days_before_month ?y ?m \<le> days_before_month (?y + 10) ?m + 1"
      by (rule days_before_month_same)
    ultimately show ?thesis
      by (simp add: tp toordinal_def ymd2ord_def y mm dd)
  qed
  then have "0 \<le> time_passed s div 365" by simp
  with p have "\<not> loop_cond e s" by (simp add: loop_cond_def e)
  then have "simulation_loop e s = Inr s" by (rule simulation_loop_exit)
  with inv show ?case by simp
next
  case (Suc j)
  then have k: "k < 120" by simp
  from scenario1_month [OF e d sv Suc.prems(1) k]
  obtain s' where c: "loop_cond e s" and body: "loop_body e s = Inr s'"
    and nb: "\<not> 365 * 60 < time_passed s'" and inv': "scenario1_inv e start_saving (Suc k) s'"
    by blast
  from Suc.prems(2) have "Suc k + j = 120" by simp
  with Suc.IH [OF inv'] obtain r where "simulation_loop e s' = Inr r"
    and "scenario1_inv e start_saving 120 r" by blast
  with c body nb show ?case by (simp add: simulation_loop_continue)
qed

text \<open>
  Claim C8, stated for the first of any month, fails at the end of the range of dates:
  from 1 January 9900 the threshold date 100 years later does not exist, and line 63
  raises \<^verbatim>\<open>ValueError\<close> before any month is simulated.
\<close>

theorem year_9900_raises:
  "check_date_fields 9900 1 1 \<and>
   minimum_mortgage_repay_time_with_tracking \<lparr>year = 9900, month = 1, day = 1\<rparr>
     5000 120000 1000 0 100 0 1000 0 0 = Inl ValueError"
  by (simp add: minimum_mortgage_repay_time_with_tracking_def mk_date_def check_date_fields_def
      days_in_month_def is_leap_def DAYS_IN_MONTH_def MINYEAR_def MAXYEAR_def)

text \<open>
  Claim C8, amended. Cap fraction 0, 100 allowance years, 120000 owed, payment 1000,
  revenue 1000, no interest on either balance, no projection; the start date the first of
  any month of a year up to 9899, and any non-negative initial savings. The function
  returns 120 months and total interest 0; the history has 121 records whose principal is
  120000 minus 1000 per month elapsed.
\<close>

theorem scenario_no_early_repayment:
  assumes "check_date_fields (year d) (month d) (day d)" and "day d = 1"
    and "year d + 100 \<le> 9999" and "0 \<le> start_saving"
  shows "\<exists>h. minimum_mortgage_repay_time_with_tracking d start_saving 120000 1000 0 100 0 1000 0 0
               = Inr (120, h, 0) \<and>
             length h = 121 \<and>
             map principal_remaining h = map (\<lambda>i. 120000 - 1000 * real i) [0..<121]"
proof -
  from assms(1) have f: "1 \<le> year d" "1 \<le> month d" "month d \<le> 12"
    by (simp_all add: check_date_fields_def MINYEAR_def)
  from assms(1) have dd: "mk_date (year d) (month d) (day d) = Inr d"
    by (simp add: mk_date_def)
  from f assms(2,3) have nl: "mk_date (year d + 100) (month d) (day d) =
      Inr \<lparr>year = year d + 100, month = month d, day = 1\<rparr>"
    using mk_date_ok [of "year d + 100" "month d" 1] by simp
  define e where "e = loop_env 120000 1000 0 0 1000 0 0
                    \<lparr>year = year d + 100, month = month d, day = 1\<rparr> d"
  from assms(1) have "valid_date d" by (simp add: valid_date_def)
  then have "months_inv e (initial_state e d start_saving)"
    by (rule months_inv_initial) (simp add: e_def)
  then have "scenario1_inv e start_saving 0 (initial_state e d start_saving)"
    by (simp add: scenario1_inv_def days_between_def initial_state_def Let_def snapshot_def e_def)
  from scenario1_loop [OF e_def assms(2,3,4) this, of 120]
  obtain r where run: "simulation_loop e (initial_state e d start_saving) = Inr r"
    and inv: "scenario1_inv e start_saving 120 r" by auto
  from inv have "month_count r = 120" "total_interest_paid r = 0"
    and h: "map principal_remaining (history r) = map (\<lambda>i. 120000 - 1000 * real i) [0..<121]"
    by (simp_all add: scenario1_inv_def)
  moreover from h have "length (history r) = 121"
    by (metis length_map length_upt diff_zero)
  ultimately show ?thesis
    using dd nl run
    by (simp add: minimum_mortgage_repay_time_with_tracking_def Let_def e_def [symmetric])
qed

theorem scenario_no_early_repayment_witness:
  "check_date_fields 2025 8 1 \<and>
   (\<exists>h. minimum_mortgage_repay_time_with_tracking \<lparr>year = 2025, month = 8, day = 1\<rparr>
           5000 120000 1000 0 100 0 1000 0 0 = Inr (120, h, 0) \<and>
         length h = 121 \<and>
         map principal_remaining h = map (\<lambda>i. 120000 - 1000 * real i) [0..<121])"
proof -
  have v: "check_date_fields 2025 8 1"
    by (simp add: check_date_fields_def days_in_month_def is_leap_def DAYS_IN_MONTH_def
        MINYEAR_def MAXYEAR_def)
  have "\<exists>h. minimum_mortgage_repay_time_with_tracking \<lparr>year = 2025, month = 8, day = 1\<rparr>
           5000 120000 1000 0 100 0 1000 0 0 = Inr (120, h, 0) \<and>
         length h = 121 \<and>
         map principal_remaining h = map (\<lambda>i. 120000 - 1000 * real i) [0..<121]"
    by (rule scenario_no_early_repayment) (simp_all add: v)
  with v show ?thesis by simp
qed

subsection \<open>C9: start dates that are not the first of a month\<close>

text \<open>
  Claim C9, as the spec states it, fails: the start date 31 January 2025 is a calendar date,
  and the first monthly advance asks for 31 February and raises \<^verbatim>\<open>ValueError\<close>.
  Likewise 29 February 2024 with one allowance year raises in line 63.
\<close>

theorem day_31_raises:
  "check_date_fields 2025 1 31 \<and>
   minimum_mortgage_repay_time_with_tracking \<lparr>year = 2025, month = 1, day = 31\<rparr>
     5000 125000 850 (1 / 10) 4 (492 / 10000) 3000 (3 / 100) 25 = Inl ValueError"
proof -
  let ?d = "\<lparr>year = 2025, month = 1, day = 31\<rparr>"
  let ?e = "loop_env 125000 850 (1 / 10) (492 / 10000) 3000 (3 / 100) 25
              \<lparr>year = 2029, month = 1, day = 31\<rparr> ?d"
  let ?s = "initial_state ?e ?d 5000"
  have v: "check_date_fields 2025 1 31"
    by (simp add: check_date_fields_def days_in_month_def is_leap_def DAYS_IN_MONTH_def
        MINYEAR_def MAXYEAR_def)
  have c: "loop_cond ?e ?s" by (simp add: loop_cond_def)
  have "next_month (current_date (early_repay (allowance ?e (accrue_and_pay ?e ?s)))) = Inl ValueError"
    by (simp add: calendar_defs)
  then have "loop_body ?e ?s = Inl ValueError"
    by (simp add: loop_body_def advance_def)
  with c have "simulation_loop ?e ?s = Inl ValueError"
    by (rule simulation_loop_raise)
  then have "minimum_mortgage_repay_time_with_tracking ?d
     5000 125000 850 (1 / 10) 4 (492 / 10000) 3000 (3 / 100) 25 = Inl ValueError"
    unfolding minimum_mortgage_repay_time_with_tracking_def
    by (simp add: mk_date_def check_date_fields_def days_in_month_def is_leap_def DAYS_IN_MONTH_def
        MINYEAR_def MAXYEAR_def Let_def)
  with v show ?thesis by simp
qed

text \<open>
  Claim C9, amended. For every calendar start date whose day is at most 28, with a
  non-negative number of allowance years and the years of the threshold date and of the
  sixtieth anniversary within the range of dates (at most 9999), the function returns:
  neither the threshold date of line 63 nor any monthly advance raises, for all amounts
  and rates.
\<close>

theorem runs_to_completion:
  assumes "check_date_fields (year d) (month d) (day d)" and "day d \<le> 28"
    and "0 \<le> n" and "year d + n \<le> 9999" and "year d + 60 \<le> 9999"
  shows "\<exists>cnt h ti.
           minimum_mortgage_repay_time_with_tracking d start_saving amount payment percent n
             mortgage_interest_rate revenue savings_interest_rate projection = Inr (cnt, h, ti)"
  using assms by (rule simulate_returns)

theorem runs_to_completion_witness:
  "check_date_fields 2025 1 28 \<and>
   (\<exists>cnt h ti.
      minimum_mortgage_repay_time_with_tracking \<lparr>year = 2025, month = 1, day = 28\<rparr>
        5000 125000 850 (1 / 10) 4 (492 / 10000) 3000 (3 / 100) 25 = Inr (cnt, h, ti))"
proof -
  have v: "check_date_fields 2025 1 28"
    by (simp add: check_date_fields_def days_in_month_def is_leap_def DAYS_IN_MONTH_def
        MINYEAR_def MAXYEAR_def)
  have "\<exists>cnt h ti.
      minimum_mortgage_repay_time_with_tracking \<lparr>year = 2025, month = 1, day = 28\<rparr>
        5000 125000 850 (1 / 10) 4 (492 / 10000) 3000 (3 / 100) 25 = Inr (cnt, h, ti)"
    by (rule runs_to_completion) (simp_all add: v)
  with v show ?thesis by simp
qed

subsection \<open>C10: a month that revenue and savings cannot pay for\<close>





end
